theory Spec2Isabelle
  imports Main "HOL-Library.Word"
begin

unbundle bit_operations_syntax

section \<open>Common conventions\<close>

text \<open>
  A \<open>Buffer\<close> is a list of bytes. A thrown exception is the left summand of a result:
  \<open>AssertionError\<close> for a failed \<open>assert\<close>, \<open>Error msg\<close> for \<open>new Error(msg)\<close> and
  \<open>ScriptError code\<close> for \<open>new ScriptError(code, ...)\<close> (the opcode, instruction pointer
  and free-text message that some throw sites attach are not kept). \<open>TypeError\<close> stands
  for a property read on \<open>undefined\<close>.
\<close>

type_synonym byte = "8 word"

datatype js_error = AssertionError | TypeError | Error string | ScriptError string

text \<open>
  Modelled from the spec: \<open>constants.flags\<close> (lib/protocol/constants.js is not among the
  sources). Section 6 of the specification lists the verification flags as named bits of
  a 32-bit mask; bit \<open>k\<close> is the \<open>k\<close>-th name of that list. A test
  \<open>flags & constants.flags.VERIFY_X\<close> is \<open>has_flag flags VERIFY_X\<close>.
\<close>

type_synonym flags = "32 word"

definition VERIFY_P2SH :: flags where "VERIFY_P2SH = push_bit 0 1"
definition VERIFY_STRICTENC :: flags where "VERIFY_STRICTENC = push_bit 1 1"
definition VERIFY_DERSIG :: flags where "VERIFY_DERSIG = push_bit 2 1"
definition VERIFY_LOW_S :: flags where "VERIFY_LOW_S = push_bit 3 1"
definition VERIFY_NULLDUMMY :: flags where "VERIFY_NULLDUMMY = push_bit 4 1"
definition VERIFY_SIGPUSHONLY :: flags where "VERIFY_SIGPUSHONLY = push_bit 5 1"
definition VERIFY_MINIMALDATA :: flags where "VERIFY_MINIMALDATA = push_bit 6 1"
definition VERIFY_DISCOURAGE_UPGRADABLE_NOPS :: flags where
  "VERIFY_DISCOURAGE_UPGRADABLE_NOPS = push_bit 7 1"
definition VERIFY_CLEANSTACK :: flags where "VERIFY_CLEANSTACK = push_bit 8 1"
definition VERIFY_CHECKLOCKTIMEVERIFY :: flags where "VERIFY_CHECKLOCKTIMEVERIFY = push_bit 9 1"
definition VERIFY_CHECKSEQUENCEVERIFY :: flags where "VERIFY_CHECKSEQUENCEVERIFY = push_bit 10 1"
definition VERIFY_WITNESS :: flags where "VERIFY_WITNESS = push_bit 11 1"
definition VERIFY_DISCOURAGE_UPGRADABLE_WITNESS_PROGRAM :: flags where
  "VERIFY_DISCOURAGE_UPGRADABLE_WITNESS_PROGRAM = push_bit 12 1"
definition VERIFY_MINIMALIF :: flags where "VERIFY_MINIMALIF = push_bit 13 1"
definition VERIFY_NULLFAIL :: flags where "VERIFY_NULLFAIL = push_bit 14 1"
definition VERIFY_WITNESS_PUBKEYTYPE :: flags where "VERIFY_WITNESS_PUBKEYTYPE = push_bit 15 1"
definition VERIFY_MAST :: flags where "VERIFY_MAST = push_bit 16 1"

definition has_flag :: "flags \<Rightarrow> flags \<Rightarrow> bool" where
  "has_flag flags f = (flags AND f \<noteq> 0)"

section \<open>Block subsidy (lib/primitives/block.js, Block.reward)\<close>

text \<open>
  JavaScript numbers that hold integers are modelled as \<open>int\<close>. The two places where
  \<open>Block.reward\<close> leaves exact integer arithmetic are written out: \<open>x | 0\<close> is ToInt32
  (reduction modulo \<open>2 ^ 32\<close>, read as two's complement) and \<open>x >>> n\<close> is ToUint32 of
  \<open>x\<close> shifted right by \<open>n\<close> modulo 32.
\<close>

definition toInt32 :: "int \<Rightarrow> int" where
  "toInt32 x = sint (word_of_int x :: 32 word)"

definition ushr :: "int \<Rightarrow> int \<Rightarrow> int" where
  "ushr x n = uint (drop_bit (nat (n mod 32)) (word_of_int x :: 32 word))"

text \<open>
  \<open>Block.reward(height, network)\<close>. The network's \<open>halvingInterval\<close> (lib/protocol/network.js)
  is a parameter. \<open>height / halvingInterval | 0\<close> on a non-negative integer height and a
  positive interval is the integer quotient, then ToInt32.
\<close>

definition reward :: "int \<Rightarrow> int \<Rightarrow> js_error + int" where
  "reward height halvingInterval =
     (if \<not> height \<ge> 0 then Inl AssertionError
      else
        let halvings = toInt32 (height div halvingInterval) in
        if halvings \<ge> 33 then Inr 0
        else if halvings = 0 then Inr 5000000000
        else Inr (ushr 2500000000 (halvings - 1)))"

section \<open>Non-contextual block verification (lib/primitives/block.js, Block.prototype._verify)\<close>

text \<open>
  The transaction class (lib/primitives/tx.js) and the header verifier
  (lib/primitives/abstractblock.js) are not among the sources. A transaction is the
  record of what \<open>_verify\<close> observes of it: \<open>isCoinbase()\<close>, \<open>isSane(ret)\<close> (\<open>None\<close> when
  it returns true, otherwise the reason and score it leaves in \<open>ret\<close>),
  \<open>getLegacySigops()\<close> and \<open>hash()\<close>. A block carries the outcome of \<open>verifyHeaders(ret)\<close>
  in the same way, its transactions, \<open>getBaseSize()\<close> and the header's \<open>merkleRoot\<close> (a
  hex string).
\<close>

record tx_view =
  tx_isCoinbase :: bool
  tx_isSane :: "(string \<times> nat) option"
  tx_getLegacySigops :: nat
  tx_hash :: "byte list"

record block =
  verifyHeaders :: "(string \<times> nat) option"
  txs :: "tx_view list"
  getBaseSize :: nat
  merkleRoot :: string

text \<open>
  Modelled from the spec: the constants of lib/protocol/constants.js, with the values of
  the specification's glossary.
\<close>

definition MAX_SIZE :: nat where "MAX_SIZE = 1000000"
definition WITNESS_SCALE_FACTOR :: nat where "WITNESS_SCALE_FACTOR = 4"
definition MAX_SIGOPS_WEIGHT :: nat where "MAX_SIGOPS_WEIGHT = 80000"

text \<open>\<open>Buffer.toString('hex')\<close>: two lower-case hexadecimal digits per byte.\<close>

definition hex_digit :: "nat \<Rightarrow> char" where
  "hex_digit n = ''0123456789abcdef'' ! n"

definition toHex :: "byte list \<Rightarrow> string" where
  "toHex bs = concat (map (\<lambda>b. [hex_digit (unat b div 16), hex_digit (unat b mod 16)]) bs)"

text \<open>
  \<open>Block.prototype.getMerkleRoot('hex')\<close>. \<open>crypto.getMerkleRoot\<close> (lib/crypto/crypto.js, not
  among the sources) is the parameter \<open>gmr\<close>: it returns a buffer, or nothing when the
  tree is mutated. \<open>None\<close> is JavaScript's \<open>undefined\<close>.
\<close>

definition getMerkleRoot :: "(byte list list \<Rightarrow> byte list option) \<Rightarrow> block \<Rightarrow> string option" where
  "getMerkleRoot gmr b =
     (case gmr (map tx_hash (txs b)) of
        None \<Rightarrow> None
      | Some root \<Rightarrow> Some (toHex root))"

text \<open>
  The outcome of \<open>_verify(ret)\<close>: \<open>Accept\<close> when it returns true, \<open>Reject reason score\<close>
  when it returns false with these values in \<open>ret\<close>.
\<close>

datatype verdict = Accept | Reject string nat

text \<open>
  The loop over the transactions, from index \<open>i\<close> with \<open>sigops\<close> counted so far;
  \<open>Some (reason, score)\<close> when an iteration returns false.
\<close>

fun verify_txs :: "nat \<Rightarrow> nat \<Rightarrow> tx_view list \<Rightarrow> (string \<times> nat) option" where
  "verify_txs i sigops [] = None"
| "verify_txs i sigops (tx # rest) =
     (if i > 0 \<and> tx_isCoinbase tx then Some (''bad-cb-multiple'', 100)
      else case tx_isSane tx of
        Some r \<Rightarrow> Some r
      | None \<Rightarrow>
          if (sigops + tx_getLegacySigops tx) * WITNESS_SCALE_FACTOR > MAX_SIGOPS_WEIGHT
          then Some (''bad-blk-sigops'', 100)
          else verify_txs (i + 1) (sigops + tx_getLegacySigops tx) rest)"

text \<open>
  \<open>Block.prototype._verify\<close>. \<open>!merkle\<close> holds for \<open>undefined\<close> and for the empty string.
\<close>

definition Block_verify :: "(byte list list \<Rightarrow> byte list option) \<Rightarrow> block \<Rightarrow> verdict" where
  "Block_verify gmr b =
     (case verifyHeaders b of
        Some (reason, score) \<Rightarrow> Reject reason score
      | None \<Rightarrow>
          if length (txs b) > MAX_SIZE \<or> getBaseSize b > MAX_SIZE
          then Reject ''bad-blk-length'' 100
          else if length (txs b) = 0 \<or> \<not> tx_isCoinbase (txs b ! 0)
          then Reject ''bad-cb-missing'' 100
          else case verify_txs 0 0 (txs b) of
            Some (reason, score) \<Rightarrow> Reject reason score
          | None \<Rightarrow>
              (case getMerkleRoot gmr b of
                 None \<Rightarrow> Reject ''bad-txns-duplicate'' 100
               | Some merkle \<Rightarrow>
                   if merkle = [] then Reject ''bad-txns-duplicate'' 100
                   else if merkleRoot b \<noteq> merkle then Reject ''bad-txnmrklroot'' 100
                   else Accept))"

text \<open>
  The checks that precede the Merkle root all pass, so that \<open>_verify\<close> reaches the call
  of \<open>getMerkleRoot\<close>.
\<close>

definition reaches_merkle :: "block \<Rightarrow> bool" where
  "reaches_merkle b =
     (verifyHeaders b = None
      \<and> length (txs b) \<le> MAX_SIZE \<and> getBaseSize b \<le> MAX_SIZE
      \<and> txs b \<noteq> [] \<and> tx_isCoinbase (txs b ! 0)
      \<and> verify_txs 0 0 (txs b) = None)"

section \<open>Script numbers (lib/script/script.js, Script.num and Script.array)\<close>

text \<open>
  A \<open>BN\<close> (bn.js) is an \<open>int\<close>. \<open>bn_toArray_le\<close> is \<open>BN.toArray('le')\<close>: the bytes of
  the magnitude, least significant first and without padding (\<open>[0]\<close> for zero), as a
  JavaScript array of numbers. \<open>bn_from_le\<close> is \<open>new BN(buffer, 'le')\<close>. Bit tests such as
  \<open>value[value.length - 1] & 0x80\<close> are on the numbers read from the buffer (\<open>unat\<close>);
  \<open>new Buffer(array)\<close> stores each number as a byte (\<open>of_nat\<close>).
\<close>

function bn_toArray_le :: "nat \<Rightarrow> nat list" where
  "bn_toArray_le n = (if n < 256 then [n] else n mod 256 # bn_toArray_le (n div 256))"
  by pat_completeness auto
termination by (relation "measure id") auto

declare bn_toArray_le.simps [simp del]

fun bn_from_le :: "byte list \<Rightarrow> nat" where
  "bn_from_le [] = 0"
| "bn_from_le (b # bs) = unat b + 256 * bn_from_le bs"

text \<open>
  \<open>Script.num(value, flags, size)\<close>; the caller passes \<open>size\<close> (4 when the source
  leaves it out). \<open>result.setn(n, 0)\<close> clears bit \<open>n\<close>.
\<close>

definition Script_num :: "byte list \<Rightarrow> flags \<Rightarrow> nat \<Rightarrow> js_error + int" where
  "Script_num val flags maxsize =
     (if length val > maxsize then Inl (ScriptError ''UNKNOWN_ERROR'')
      else if has_flag flags VERIFY_MINIMALDATA \<and> length val > 0
              \<and> unat (val ! (length val - 1)) AND 0x7f = 0
              \<and> (length val = 1 \<or> unat (val ! (length val - 2)) AND 0x80 = 0)
        then Inl (ScriptError ''UNKNOWN_ERROR'')
      else if length val = 0 then Inr 0
      else
        let result = int (bn_from_le val) in
        if unat (val ! (length val - 1)) AND 0x80 \<noteq> 0
        then Inr (- unset_bit (length val * 8 - 1) result)
        else Inr result)"

definition Script_array :: "int \<Rightarrow> byte list" where
  "Script_array val =
     (if val = 0 then []
      else
        let neg = val < 0;
            result = bn_toArray_le (nat \<bar>val\<bar>) in
        map of_nat
          (if result ! (length result - 1) AND 0x80 \<noteq> 0
           then result @ [if neg then 0x80 else 0]
           else if neg then result[length result - 1 := result ! (length result - 1) OR 0x80]
           else result))"

section \<open>Opcodes and the script serializer (lib/script/script.js, Script.decode and Script.encode)\<close>

text \<open>
  An \<open>Opcode\<close> object has a numeric \<open>value\<close> and a \<open>data\<close> buffer that is \<open>null\<close> for a
  non-push opcode; the value \<open>-1\<close> marks a parse error. The opcode numbers
  (\<open>constants.opcodes\<close>, lib/protocol/constants.js, not among the sources) are those of the
  Bitcoin protocol, on which the raw scripts built in script.js rely (\<open>0x14\<close> pushes 20
  bytes, \<open>op - 0x50\<close> is the number pushed by \<open>OP_1\<close> to \<open>OP_16\<close>).
\<close>

datatype opcode = Opcode (op_value: int) (op_data: "byte list option")

abbreviation (input) OP_0 :: int where "OP_0 \<equiv> 0x00"
abbreviation (input) OP_PUSHDATA1 :: int where "OP_PUSHDATA1 \<equiv> 0x4c"
abbreviation (input) OP_PUSHDATA2 :: int where "OP_PUSHDATA2 \<equiv> 0x4d"
abbreviation (input) OP_PUSHDATA4 :: int where "OP_PUSHDATA4 \<equiv> 0x4e"
abbreviation (input) OP_1NEGATE :: int where "OP_1NEGATE \<equiv> 0x4f"
abbreviation (input) OP_1 :: int where "OP_1 \<equiv> 0x51"
abbreviation (input) OP_16 :: int where "OP_16 \<equiv> 0x60"
abbreviation (input) OP_NOP :: int where "OP_NOP \<equiv> 0x61"
abbreviation (input) OP_IF :: int where "OP_IF \<equiv> 0x63"
abbreviation (input) OP_NOTIF :: int where "OP_NOTIF \<equiv> 0x64"
abbreviation (input) OP_VERIF :: int where "OP_VERIF \<equiv> 0x65"
abbreviation (input) OP_VERNOTIF :: int where "OP_VERNOTIF \<equiv> 0x66"
abbreviation (input) OP_ELSE :: int where "OP_ELSE \<equiv> 0x67"
abbreviation (input) OP_ENDIF :: int where "OP_ENDIF \<equiv> 0x68"
abbreviation (input) OP_VERIFY :: int where "OP_VERIFY \<equiv> 0x69"
abbreviation (input) OP_RETURN :: int where "OP_RETURN \<equiv> 0x6a"
abbreviation (input) OP_TOALTSTACK :: int where "OP_TOALTSTACK \<equiv> 0x6b"
abbreviation (input) OP_FROMALTSTACK :: int where "OP_FROMALTSTACK \<equiv> 0x6c"
abbreviation (input) OP_2DROP :: int where "OP_2DROP \<equiv> 0x6d"
abbreviation (input) OP_2DUP :: int where "OP_2DUP \<equiv> 0x6e"
abbreviation (input) OP_3DUP :: int where "OP_3DUP \<equiv> 0x6f"
abbreviation (input) OP_2OVER :: int where "OP_2OVER \<equiv> 0x70"
abbreviation (input) OP_2ROT :: int where "OP_2ROT \<equiv> 0x71"
abbreviation (input) OP_2SWAP :: int where "OP_2SWAP \<equiv> 0x72"
abbreviation (input) OP_IFDUP :: int where "OP_IFDUP \<equiv> 0x73"
abbreviation (input) OP_DEPTH :: int where "OP_DEPTH \<equiv> 0x74"
abbreviation (input) OP_DROP :: int where "OP_DROP \<equiv> 0x75"
abbreviation (input) OP_DUP :: int where "OP_DUP \<equiv> 0x76"
abbreviation (input) OP_NIP :: int where "OP_NIP \<equiv> 0x77"
abbreviation (input) OP_OVER :: int where "OP_OVER \<equiv> 0x78"
abbreviation (input) OP_PICK :: int where "OP_PICK \<equiv> 0x79"
abbreviation (input) OP_ROLL :: int where "OP_ROLL \<equiv> 0x7a"
abbreviation (input) OP_ROT :: int where "OP_ROT \<equiv> 0x7b"
abbreviation (input) OP_SWAP :: int where "OP_SWAP \<equiv> 0x7c"
abbreviation (input) OP_TUCK :: int where "OP_TUCK \<equiv> 0x7d"
abbreviation (input) OP_CAT :: int where "OP_CAT \<equiv> 0x7e"
abbreviation (input) OP_SUBSTR :: int where "OP_SUBSTR \<equiv> 0x7f"
abbreviation (input) OP_LEFT :: int where "OP_LEFT \<equiv> 0x80"
abbreviation (input) OP_RIGHT :: int where "OP_RIGHT \<equiv> 0x81"
abbreviation (input) OP_SIZE :: int where "OP_SIZE \<equiv> 0x82"
abbreviation (input) OP_INVERT :: int where "OP_INVERT \<equiv> 0x83"
abbreviation (input) OP_AND :: int where "OP_AND \<equiv> 0x84"
abbreviation (input) OP_OR :: int where "OP_OR \<equiv> 0x85"
abbreviation (input) OP_XOR :: int where "OP_XOR \<equiv> 0x86"
abbreviation (input) OP_EQUAL :: int where "OP_EQUAL \<equiv> 0x87"
abbreviation (input) OP_EQUALVERIFY :: int where "OP_EQUALVERIFY \<equiv> 0x88"
abbreviation (input) OP_1ADD :: int where "OP_1ADD \<equiv> 0x8b"
abbreviation (input) OP_1SUB :: int where "OP_1SUB \<equiv> 0x8c"
abbreviation (input) OP_2MUL :: int where "OP_2MUL \<equiv> 0x8d"
abbreviation (input) OP_2DIV :: int where "OP_2DIV \<equiv> 0x8e"
abbreviation (input) OP_NEGATE :: int where "OP_NEGATE \<equiv> 0x8f"
abbreviation (input) OP_ABS :: int where "OP_ABS \<equiv> 0x90"
abbreviation (input) OP_NOT :: int where "OP_NOT \<equiv> 0x91"
abbreviation (input) OP_0NOTEQUAL :: int where "OP_0NOTEQUAL \<equiv> 0x92"
abbreviation (input) OP_ADD :: int where "OP_ADD \<equiv> 0x93"
abbreviation (input) OP_SUB :: int where "OP_SUB \<equiv> 0x94"
abbreviation (input) OP_MUL :: int where "OP_MUL \<equiv> 0x95"
abbreviation (input) OP_DIV :: int where "OP_DIV \<equiv> 0x96"
abbreviation (input) OP_MOD :: int where "OP_MOD \<equiv> 0x97"
abbreviation (input) OP_LSHIFT :: int where "OP_LSHIFT \<equiv> 0x98"
abbreviation (input) OP_RSHIFT :: int where "OP_RSHIFT \<equiv> 0x99"
abbreviation (input) OP_BOOLAND :: int where "OP_BOOLAND \<equiv> 0x9a"
abbreviation (input) OP_BOOLOR :: int where "OP_BOOLOR \<equiv> 0x9b"
abbreviation (input) OP_NUMEQUAL :: int where "OP_NUMEQUAL \<equiv> 0x9c"
abbreviation (input) OP_NUMEQUALVERIFY :: int where "OP_NUMEQUALVERIFY \<equiv> 0x9d"
abbreviation (input) OP_NUMNOTEQUAL :: int where "OP_NUMNOTEQUAL \<equiv> 0x9e"
abbreviation (input) OP_LESSTHAN :: int where "OP_LESSTHAN \<equiv> 0x9f"
abbreviation (input) OP_GREATERTHAN :: int where "OP_GREATERTHAN \<equiv> 0xa0"
abbreviation (input) OP_LESSTHANOREQUAL :: int where "OP_LESSTHANOREQUAL \<equiv> 0xa1"
abbreviation (input) OP_GREATERTHANOREQUAL :: int where "OP_GREATERTHANOREQUAL \<equiv> 0xa2"
abbreviation (input) OP_MIN :: int where "OP_MIN \<equiv> 0xa3"
abbreviation (input) OP_MAX :: int where "OP_MAX \<equiv> 0xa4"
abbreviation (input) OP_WITHIN :: int where "OP_WITHIN \<equiv> 0xa5"
abbreviation (input) OP_RIPEMD160 :: int where "OP_RIPEMD160 \<equiv> 0xa6"
abbreviation (input) OP_SHA1 :: int where "OP_SHA1 \<equiv> 0xa7"
abbreviation (input) OP_SHA256 :: int where "OP_SHA256 \<equiv> 0xa8"
abbreviation (input) OP_HASH160 :: int where "OP_HASH160 \<equiv> 0xa9"
abbreviation (input) OP_HASH256 :: int where "OP_HASH256 \<equiv> 0xaa"
abbreviation (input) OP_CODESEPARATOR :: int where "OP_CODESEPARATOR \<equiv> 0xab"
abbreviation (input) OP_CHECKSIG :: int where "OP_CHECKSIG \<equiv> 0xac"
abbreviation (input) OP_CHECKSIGVERIFY :: int where "OP_CHECKSIGVERIFY \<equiv> 0xad"
abbreviation (input) OP_CHECKMULTISIG :: int where "OP_CHECKMULTISIG \<equiv> 0xae"
abbreviation (input) OP_CHECKMULTISIGVERIFY :: int where "OP_CHECKMULTISIGVERIFY \<equiv> 0xaf"
abbreviation (input) OP_NOP1 :: int where "OP_NOP1 \<equiv> 0xb0"
abbreviation (input) OP_CHECKLOCKTIMEVERIFY :: int where "OP_CHECKLOCKTIMEVERIFY \<equiv> 0xb1"
abbreviation (input) OP_CHECKSEQUENCEVERIFY :: int where "OP_CHECKSEQUENCEVERIFY \<equiv> 0xb2"
abbreviation (input) OP_NOP4 :: int where "OP_NOP4 \<equiv> 0xb3"
abbreviation (input) OP_NOP10 :: int where "OP_NOP10 \<equiv> 0xb9"

text \<open>
  Modelled from the spec: \<open>BufferReader\<close> and \<open>BufferWriter\<close> (lib/utils/reader.js and
  writer.js are not among the sources). Multi-byte integers are little-endian, as the
  network format of section 6 has them. The readers below read at the front of the
  unread part of the buffer; the writers give the bytes written, a value too large for
  its field keeping its low bytes.
\<close>

definition readU8 :: "byte list \<Rightarrow> nat" where
  "readU8 p = unat (p ! 0)"

definition readU16 :: "byte list \<Rightarrow> nat" where
  "readU16 p = unat (p ! 0) + 256 * unat (p ! 1)"

definition readU32 :: "byte list \<Rightarrow> nat" where
  "readU32 p = unat (p ! 0) + 256 * (unat (p ! 1) + 256 * (unat (p ! 2) + 256 * unat (p ! 3)))"

definition writeU8 :: "int \<Rightarrow> byte list" where
  "writeU8 n = [word_of_int n]"

definition writeU16 :: "nat \<Rightarrow> byte list" where
  "writeU16 n = [of_nat n, of_nat (n div 256)]"

definition writeU32 :: "nat \<Rightarrow> byte list" where
  "writeU32 n = [of_nat n, of_nat (n div 256), of_nat (n div 256 div 256),
                 of_nat (n div 256 div 256 div 256)]"

text \<open>
  \<open>Script.decode(raw)\<close>. The argument of the recursion is the unread part of the buffer
  (\<open>p.left()\<close> is its length); a parse error pushes the opcode \<open>-1\<close> and stops.
\<close>

function decode :: "byte list \<Rightarrow> opcode list" where
  "decode [] = []"
| "decode (b # p) =
     (if 0x01 \<le> uint b \<and> uint b \<le> 0x4b then
        (if length p < unat b then [Opcode (- 1) None]
         else Opcode (uint b) (Some (take (unat b) p)) # decode (drop (unat b) p))
      else if uint b = OP_PUSHDATA1 then
        (if length p < 1 then [Opcode (- 1) None]
         else if length (drop 1 p) < readU8 p then [Opcode (- 1) None]
         else Opcode (uint b) (Some (take (readU8 p) (drop 1 p)))
                # decode (drop (readU8 p) (drop 1 p)))
      else if uint b = OP_PUSHDATA2 then
        (if length p < 2 then [Opcode (- 1) None]
         else if length (drop 2 p) < readU16 p then [Opcode (- 1) None]
         else Opcode (uint b) (Some (take (readU16 p) (drop 2 p)))
                # decode (drop (readU16 p) (drop 2 p)))
      else if uint b = OP_PUSHDATA4 then
        (if length p < 4 then [Opcode (- 1) None]
         else if length (drop 4 p) < readU32 p then [Opcode (- 1) None]
         else Opcode (uint b) (Some (take (readU32 p) (drop 4 p)))
                # decode (drop (readU32 p) (drop 4 p)))
      else Opcode (uint b) None # decode p)"
  by pat_completeness auto
termination
  by (relation "measure length") auto

text \<open>
  \<open>Script.encode(code)\<close> without a writer argument: the rendered buffer, or the
  exception thrown at the first opcode that cannot be written.
\<close>

definition encode_op :: "opcode \<Rightarrow> js_error + byte list" where
  "encode_op op =
     (if op_value op = - 1 then Inl (Error ''Cannot reserialize a parse error.'')
      else case op_data op of
        Some d \<Rightarrow>
          if op_value op \<le> 0x4b then Inr (writeU8 (int (length d)) @ d)
          else if op_value op = OP_PUSHDATA1 then
            Inr (writeU8 OP_PUSHDATA1 @ writeU8 (int (length d)) @ d)
          else if op_value op = OP_PUSHDATA2 then
            Inr (writeU8 OP_PUSHDATA2 @ writeU16 (length d) @ d)
          else if op_value op = OP_PUSHDATA4 then
            Inr (writeU8 OP_PUSHDATA4 @ writeU32 (length d) @ d)
          else Inl (Error ''Unknown pushdata opcode.'')
      | None \<Rightarrow> Inr (writeU8 (op_value op)))"

fun encode :: "opcode list \<Rightarrow> js_error + byte list" where
  "encode [] = Inr []"
| "encode (op # ops) =
     (case encode_op op of
        Inl e \<Rightarrow> Inl e
      | Inr bs \<Rightarrow> (case encode ops of Inl e \<Rightarrow> Inl e | Inr rest \<Rightarrow> Inr (bs @ rest)))"

section \<open>The script interpreter (lib/script/script.js)\<close>

subsection \<open>Scripts, the execution stack and the external collaborators\<close>

text \<open>
  A \<open>Script\<close> object keeps its serialization \<open>raw\<close> and the parsed \<open>code\<close>.
  \<open>Script_fromRaw\<close> is \<open>new Script(buffer)\<close>; \<open>Script_fromArray\<close> is \<open>new Script(code)\<close> for an
  array of opcodes, which serializes the code and so may throw.
\<close>

record script =
  raw :: "byte list"
  code :: "opcode list"

definition Script_fromRaw :: "byte list \<Rightarrow> script" where
  "Script_fromRaw data = \<lparr>raw = data, code = decode data\<rparr>"

definition Script_fromArray :: "opcode list \<Rightarrow> js_error + script" where
  "Script_fromArray c =
     (case encode c of Inl e \<Rightarrow> Inl e | Inr r \<Rightarrow> Inr \<lparr>raw = r, code = c\<rparr>)"

text \<open>
  Modelled from the spec: the \<open>Stack\<close> class (lib/script/stack.js is not among the
  sources). Section 3 of the specification: an ordered sequence of byte vectors with
  top-relative indexing, \<open>top(-1)\<close> being the last element. The index \<open>-k\<close> of the source
  is the argument \<open>k\<close> here; every use in \<open>execute\<close> is guarded by a length check.
  \<open>erase(-a, -b)\<close> removes the half-open range from \<open>-a\<close> to \<open>-b\<close>, \<open>insert(-k, v)\<close> puts
  \<open>v\<close> before the element at \<open>-k\<close>, \<open>remove(-k)\<close> deletes the element at \<open>-k\<close>.
\<close>

type_synonym stack = "byte list list"

definition top :: "stack \<Rightarrow> nat \<Rightarrow> byte list" where
  "top s k = s ! (length s - k)"

definition pop :: "stack \<Rightarrow> stack" where
  "pop s = butlast s"

definition push :: "stack \<Rightarrow> byte list \<Rightarrow> stack" where
  "push s v = s @ [v]"

definition stack_set :: "stack \<Rightarrow> nat \<Rightarrow> byte list \<Rightarrow> stack" where
  "stack_set s k v = s[length s - k := v]"

definition swap :: "stack \<Rightarrow> nat \<Rightarrow> nat \<Rightarrow> stack" where
  "swap s k1 k2 = s[length s - k1 := s ! (length s - k2), length s - k2 := s ! (length s - k1)]"

definition remove :: "stack \<Rightarrow> nat \<Rightarrow> stack" where
  "remove s k = take (length s - k) s @ drop (length s - k + 1) s"

definition insert_at :: "stack \<Rightarrow> nat \<Rightarrow> byte list \<Rightarrow> stack" where
  "insert_at s k v = take (length s - k) s @ [v] @ drop (length s - k) s"

definition erase :: "stack \<Rightarrow> nat \<Rightarrow> nat \<Rightarrow> stack" where
  "erase s a b = take (length s - a) s @ drop (length s - b) s"

definition STACK_TRUE :: "byte list" where "STACK_TRUE = [1]"
definition STACK_FALSE :: "byte list" where "STACK_FALSE = []"
definition STACK_NEGATE :: "byte list" where "STACK_NEGATE = [0x81]"

text \<open>
  The collaborators that script.js calls and that are outside the sources: the digest
  functions of lib/crypto/crypto.js, \<open>ec.isLowS\<close> and \<open>SigCache.verify\<close>. They are the
  fields of an environment passed to the interpreter.
\<close>

record env =
  ripemd160 :: "byte list \<Rightarrow> byte list"
  sha1 :: "byte list \<Rightarrow> byte list"
  sha256 :: "byte list \<Rightarrow> byte list"
  hash160 :: "byte list \<Rightarrow> byte list"
  hash256 :: "byte list \<Rightarrow> byte list"
  isLowS :: "byte list \<Rightarrow> bool"
  SigCache_verify :: "byte list \<Rightarrow> byte list \<Rightarrow> byte list \<Rightarrow> bool \<Rightarrow> bool \<Rightarrow> bool"

text \<open>
  The transaction being verified (lib/primitives/tx.js, not among the sources), as the
  interpreter reads it: \<open>locktime\<close>, \<open>version\<close>, the \<open>sequence\<close> of each input, and
  \<open>signatureHash(index, subscript, type, version)\<close>.
\<close>

record tx_ctx =
  tx_locktime :: int
  tx_version :: int
  tx_sequence :: "int list"
  signatureHash :: "nat \<Rightarrow> script \<Rightarrow> nat \<Rightarrow> int \<Rightarrow> byte list"

text \<open>
  Modelled from the spec: limits and constants of lib/protocol/constants.js, with the
  values of the specification (glossary, sections 4.2 and 4.5) and of the Bitcoin
  protocol for the sequence and hash-type bits.
\<close>

definition MAX_SCRIPT_SIZE :: nat where "MAX_SCRIPT_SIZE = 10000"
definition MAX_PUSH :: nat where "MAX_PUSH = 520"
definition MAX_OPS :: int where "MAX_OPS = 201"
definition MAX_STACK :: nat where "MAX_STACK = 1000"
definition MAX_MULTISIG_PUBKEYS :: int where "MAX_MULTISIG_PUBKEYS = 20"
definition LOCKTIME_THRESHOLD :: int where "LOCKTIME_THRESHOLD = 500000000"
definition SEQUENCE_DISABLE_FLAG :: int where "SEQUENCE_DISABLE_FLAG = 2147483648"
definition SEQUENCE_TYPE_FLAG :: int where "SEQUENCE_TYPE_FLAG = 4194304"
definition SEQUENCE_MASK :: int where "SEQUENCE_MASK = 65535"
definition hashType_ALL :: int where "hashType_ALL = 1"
definition hashType_SINGLE :: int where "hashType_SINGLE = 3"
definition hashType_ANYONECANPAY :: int where "hashType_ANYONECANPAY = 128"

text \<open>JavaScript's \<open>a & b\<close> and \<open>a | b\<close> on numbers: ToInt32 of both operands.\<close>

definition and32 :: "int \<Rightarrow> int \<Rightarrow> int" where
  "and32 a b = sint ((word_of_int a :: 32 word) AND word_of_int b)"

definition or32 :: "int \<Rightarrow> int \<Rightarrow> int" where
  "or32 a b = sint ((word_of_int a :: 32 word) OR word_of_int b)"

subsection \<open>Helpers of the interpreter\<close>

text \<open>\<open>Script.bool\<close>: the first non-zero byte decides; a final \<open>0x80\<close> is negative zero.\<close>

fun Script_bool :: "byte list \<Rightarrow> bool" where
  "Script_bool [] = False"
| "Script_bool (b # bs) =
     (if b \<noteq> 0 then (if bs = [] \<and> b = 0x80 then False else True) else Script_bool bs)"

text \<open>\<open>Script.isMinimal(data, opcode, flags)\<close> for a data buffer that is present.\<close>

definition Script_isMinimal :: "byte list \<Rightarrow> int \<Rightarrow> flags \<Rightarrow> bool" where
  "Script_isMinimal data opcode flags =
     (if \<not> has_flag flags VERIFY_MINIMALDATA then True
      else if length data = 0 then opcode = OP_0
      else if length data = 1 \<and> unat (data ! 0) \<ge> 1 \<and> unat (data ! 0) \<le> 16 then False
      else if length data = 1 \<and> unat (data ! 0) = 0x81 then False
      else if length data \<le> 75 then opcode = int (length data)
      else if length data \<le> 255 then opcode = OP_PUSHDATA1
      else if length data \<le> 65535 then opcode = OP_PUSHDATA2
      else True)"

text \<open>\<open>Script.prototype.getSubscript(lastSep)\<close>.\<close>

definition getSubscript :: "script \<Rightarrow> nat \<Rightarrow> js_error + script" where
  "getSubscript s lastSep =
     (if lastSep = 0 then Inr (Script_fromRaw (raw s))
      else Script_fromArray (takeWhile (\<lambda>op. op_value op \<noteq> - 1) (drop lastSep (code s))))"

text \<open>
  \<open>Script.prototype.removeData(data)\<close>. The first loop collects the positions to remove;
  it calls \<open>Script.isMinimal\<close> without flags, that is under the standard flags, of which
  only \<open>VERIFY_MINIMALDATA\<close> matters there. The positions are then spliced out and the
  script is serialized again, which throws on a parse error that was not removed.
\<close>

fun removeData_index :: "byte list \<Rightarrow> nat \<Rightarrow> opcode list \<Rightarrow> nat list \<Rightarrow> nat list" where
  "removeData_index data i [] index = index"
| "removeData_index data i (op # rest) index =
     (if op_value op = - 1 then (if length index > 0 then index @ [i] else index)
      else case op_data op of
        None \<Rightarrow> removeData_index data (i + 1) rest index
      | Some d \<Rightarrow>
          if \<not> Script_isMinimal d (op_value op) VERIFY_MINIMALDATA
          then removeData_index data (i + 1) rest index
          else if d = data then removeData_index data (i + 1) rest (index @ [i])
          else removeData_index data (i + 1) rest index)"

definition removeData :: "script \<Rightarrow> byte list \<Rightarrow> js_error + script" where
  "removeData s data =
     (let index = removeData_index data 0 (code s) [] in
      if length index = 0 then Inr s
      else
        let c = map (\<lambda>i. code s ! i) (filter (\<lambda>i. i \<notin> set index) [0..<length (code s)]) in
        case encode c of Inl e \<Rightarrow> Inl e | Inr r \<Rightarrow> Inr \<lparr>raw = r, code = c\<rparr>)"

text \<open>Signature and key encoding checks.\<close>

definition isSignatureEncoding :: "byte list \<Rightarrow> bool" where
  "isSignatureEncoding sig =
     (if length sig < 9 then False
      else if length sig > 73 then False
      else if unat (sig ! 0) \<noteq> 0x30 then False
      else if unat (sig ! 1) \<noteq> length sig - 3 then False
      else
        let lenR = unat (sig ! 3) in
        if 5 + lenR \<ge> length sig then False
        else
          let lenS = unat (sig ! (5 + lenR)) in
          if lenR + lenS + 7 \<noteq> length sig then False
          else if unat (sig ! 2) \<noteq> 0x02 then False
          else if lenR = 0 then False
          else if unat (sig ! 4) AND 0x80 \<noteq> 0 then False
          else if lenR > 1 \<and> unat (sig ! 4) = 0x00 \<and> unat (sig ! 5) AND 0x80 = 0 then False
          else if unat (sig ! (lenR + 4)) \<noteq> 0x02 then False
          else if lenS = 0 then False
          else if unat (sig ! (lenR + 6)) AND 0x80 \<noteq> 0 then False
          else if lenS > 1 \<and> unat (sig ! (lenR + 6)) = 0x00
                  \<and> unat (sig ! (lenR + 7)) AND 0x80 = 0 then False
          else True)"

definition isHashType :: "byte list \<Rightarrow> bool" where
  "isHashType sig =
     (if length sig = 0 then False
      else
        let type = and32 (uint (sig ! (length sig - 1))) (NOT hashType_ANYONECANPAY) in
        if \<not> (type \<ge> hashType_ALL \<and> type \<le> hashType_SINGLE) then False else True)"

definition isLowDER :: "env \<Rightarrow> byte list \<Rightarrow> bool" where
  "isLowDER E sig = (if \<not> isSignatureEncoding sig then False else isLowS E (butlast sig))"

definition validateSignature :: "env \<Rightarrow> byte list \<Rightarrow> flags \<Rightarrow> js_error + bool" where
  "validateSignature E sig flags =
     (if length sig = 0 then Inr True
      else if (has_flag flags VERIFY_DERSIG \<or> has_flag flags VERIFY_LOW_S
               \<or> has_flag flags VERIFY_STRICTENC) \<and> \<not> isSignatureEncoding sig
        then Inl (ScriptError ''SIG_DER'')
      else if has_flag flags VERIFY_LOW_S \<and> \<not> isLowDER E sig
        then Inl (ScriptError ''SIG_HIGH_S'')
      else if has_flag flags VERIFY_STRICTENC \<and> \<not> isHashType sig
        then Inl (ScriptError ''SIG_HASHTYPE'')
      else Inr True)"

definition isCompressedEncoding :: "byte list \<Rightarrow> bool" where
  "isCompressedEncoding key =
     (if length key \<noteq> 33 then False
      else if unat (key ! 0) \<noteq> 0x02 \<and> unat (key ! 0) \<noteq> 0x03 then False
      else True)"

definition isKeyEncoding :: "byte list \<Rightarrow> bool" where
  "isKeyEncoding key =
     (if length key < 33 then False
      else if unat (key ! 0) = 0x04 then (if length key \<noteq> 65 then False else True)
      else if unat (key ! 0) = 0x02 \<or> unat (key ! 0) = 0x03
        then (if length key \<noteq> 33 then False else True)
      else False)"

definition validateKey :: "byte list \<Rightarrow> flags \<Rightarrow> int \<Rightarrow> js_error + bool" where
  "validateKey key flags version =
     (if has_flag flags VERIFY_STRICTENC \<and> \<not> isKeyEncoding key
        then Inl (ScriptError ''PUBKEYTYPE'')
      else if version = 1 \<and> has_flag flags VERIFY_WITNESS_PUBKEYTYPE
              \<and> \<not> isCompressedEncoding key
        then Inl (ScriptError ''WITNESS_PUBKEYTYPE'')
      else Inr True)"

text \<open>\<open>Script.checksig(msg, sig, key, flags)\<close>.\<close>

definition Script_checksig :: "env \<Rightarrow> byte list \<Rightarrow> byte list \<Rightarrow> byte list \<Rightarrow> flags \<Rightarrow> bool" where
  "Script_checksig E msg sig key flags =
     (let historical = \<not> (has_flag flags VERIFY_DERSIG \<or> has_flag flags VERIFY_LOW_S
                            \<or> has_flag flags VERIFY_STRICTENC);
          high = \<not> has_flag flags VERIFY_LOW_S
      in SigCache_verify E msg (butlast sig) key historical high)"

text \<open>
  \<open>Script.checkLocktime\<close> and \<open>Script.checkSequence\<close>; reading \<open>tx.inputs[i].sequence\<close> of
  an input that does not exist throws a \<open>TypeError\<close>.
\<close>

definition checkLocktime :: "int \<Rightarrow> tx_ctx \<Rightarrow> nat \<Rightarrow> js_error + bool" where
  "checkLocktime locktime tx i =
     (if \<not> ((tx_locktime tx < LOCKTIME_THRESHOLD \<and> locktime < LOCKTIME_THRESHOLD)
             \<or> (tx_locktime tx \<ge> LOCKTIME_THRESHOLD \<and> locktime \<ge> LOCKTIME_THRESHOLD))
        then Inr False
      else if locktime > tx_locktime tx then Inr False
      else if \<not> i < length (tx_sequence tx) then Inl TypeError
      else if tx_sequence tx ! i = 0xffffffff then Inr False
      else Inr True)"

definition checkSequence :: "int \<Rightarrow> tx_ctx \<Rightarrow> nat \<Rightarrow> js_error + bool" where
  "checkSequence sequence tx i =
     (if \<not> i < length (tx_sequence tx) then Inl TypeError
      else
        let txSequence = tx_sequence tx ! i in
        if tx_version tx < 2 then Inr False
        else if and32 txSequence SEQUENCE_DISABLE_FLAG \<noteq> 0 then Inr False
        else
          let locktimeMask = or32 SEQUENCE_TYPE_FLAG SEQUENCE_MASK;
              txSequenceMasked = and32 txSequence locktimeMask;
              sequenceMasked = and32 sequence locktimeMask
          in
          if \<not> ((txSequenceMasked < SEQUENCE_TYPE_FLAG \<and> sequenceMasked < SEQUENCE_TYPE_FLAG)
                 \<or> (txSequenceMasked \<ge> SEQUENCE_TYPE_FLAG
                     \<and> sequenceMasked \<ge> SEQUENCE_TYPE_FLAG))
            then Inr False
          else if sequenceMasked > txSequenceMasked then Inr False
          else Inr True)"

subsection \<open>Script.prototype.execute\<close>

text \<open>
  The local variables of \<open>execute\<close> that live across iterations of its loop: the stack
  (mutated in place in the source), the alt stack, the conditional states, the count
  \<open>negate\<close> of false conditional states, the operation counter and the position after
  the last code separator.
\<close>

record exec_state =
  stack :: stack
  alt :: stack
  state :: "bool list"
  negate :: int
  opCount :: int
  lastSep :: nat

abbreviation (input) SErr :: "string \<Rightarrow> js_error + 'a" where
  "SErr c \<equiv> Inl (ScriptError c)"

text \<open>The opcodes of the first \<open>switch\<close>, which fail even in a branch that is not executed.\<close>

definition is_disabled :: "int \<Rightarrow> bool" where
  "is_disabled op =
     (op = OP_CAT \<or> op = OP_SUBSTR \<or> op = OP_LEFT \<or> op = OP_RIGHT \<or> op = OP_INVERT
      \<or> op = OP_AND \<or> op = OP_OR \<or> op = OP_XOR \<or> op = OP_2MUL \<or> op = OP_2DIV
      \<or> op = OP_MUL \<or> op = OP_DIV \<or> op = OP_MOD \<or> op = OP_LSHIFT \<or> op = OP_RSHIFT)"

text \<open>The opcodes from \<open>OP_IF\<close> to \<open>OP_ENDIF\<close>, handled whether or not the branch executes.\<close>

definition exec_conditional :: "flags \<Rightarrow> int \<Rightarrow> int \<Rightarrow> exec_state \<Rightarrow> js_error + exec_state" where
  "exec_conditional flags version op st =
     (if op = OP_IF \<or> op = OP_NOTIF then
        (if negate st = 0 then
           (if length (stack st) < 1 then SErr ''UNBALANCED_CONDITIONAL''
            else
              let v = top (stack st) 1 in
              if version = 1 \<and> has_flag flags VERIFY_MINIMALIF \<and> length v > 1
                then SErr ''MINIMALIF''
              else if version = 1 \<and> has_flag flags VERIFY_MINIMALIF \<and> length v = 1
                      \<and> unat (v ! 0) \<noteq> 1
                then SErr ''MINIMALIF''
              else
                let val = (if op = OP_NOTIF then \<not> Script_bool v else Script_bool v) in
                Inr (st\<lparr>stack := pop (stack st), state := state st @ [val],
                        negate := (if \<not> val then negate st + 1 else negate st)\<rparr>))
         else Inr (st\<lparr>state := state st @ [False], negate := negate st + 1\<rparr>))
      else if op = OP_ELSE then
        (if length (state st) = 0 then SErr ''UNBALANCED_CONDITIONAL''
         else
           let flipped = \<not> last (state st) in
           Inr (st\<lparr>state := butlast (state st) @ [flipped],
                   negate := (if \<not> flipped then negate st + 1 else negate st - 1)\<rparr>))
      else if op = OP_ENDIF then
        (if length (state st) = 0 then SErr ''UNBALANCED_CONDITIONAL''
         else Inr (st\<lparr>state := butlast (state st),
                      negate := (if \<not> last (state st) then negate st - 1 else negate st)\<rparr>))
      else if op = OP_VERIF \<or> op = OP_VERNOTIF then SErr ''BAD_OPCODE''
      else Inl AssertionError)"

text \<open>The numeric opcodes with one and with two operands (the enabled ones).\<close>

definition op_arith1 :: "int \<Rightarrow> flags \<Rightarrow> exec_state \<Rightarrow> js_error + exec_state" where
  "op_arith1 op flags st =
     (if length (stack st) < 1 then SErr ''INVALID_STACK_OPERATION''
      else case Script_num (top (stack st) 1) flags 4 of
        Inl e \<Rightarrow> Inl e
      | Inr n \<Rightarrow>
          let num =
            (if op = OP_1ADD then n + 1
             else if op = OP_1SUB then n - 1
             else if op = OP_NEGATE then - n
             else if op = OP_ABS then (if n < 0 then - n else n)
             else if op = OP_NOT then (if n = 0 then 1 else 0)
             else (if n \<noteq> 0 then 1 else 0))
          in Inr (st\<lparr>stack := push (pop (stack st)) (Script_array num)\<rparr>))"

definition op_arith2 :: "int \<Rightarrow> flags \<Rightarrow> exec_state \<Rightarrow> js_error + exec_state" where
  "op_arith2 op flags st =
     (if length (stack st) < 2 then SErr ''INVALID_STACK_OPERATION''
      else case Script_num (top (stack st) 2) flags 4 of
        Inl e \<Rightarrow> Inl e
      | Inr n1 \<Rightarrow>
         (case Script_num (top (stack st) 1) flags 4 of
            Inl e \<Rightarrow> Inl e
          | Inr n2 \<Rightarrow>
              let num =
                (if op = OP_ADD then n1 + n2
                 else if op = OP_SUB then n1 - n2
                 else if op = OP_BOOLAND then (if n1 \<noteq> 0 \<and> n2 \<noteq> 0 then 1 else 0)
                 else if op = OP_BOOLOR then (if n1 \<noteq> 0 \<or> n2 \<noteq> 0 then 1 else 0)
                 else if op = OP_NUMEQUAL then (if n1 = n2 then 1 else 0)
                 else if op = OP_NUMEQUALVERIFY then (if n1 = n2 then 1 else 0)
                 else if op = OP_NUMNOTEQUAL then (if n1 \<noteq> n2 then 1 else 0)
                 else if op = OP_LESSTHAN then (if n1 < n2 then 1 else 0)
                 else if op = OP_GREATERTHAN then (if n1 > n2 then 1 else 0)
                 else if op = OP_LESSTHANOREQUAL then (if n1 \<le> n2 then 1 else 0)
                 else if op = OP_GREATERTHANOREQUAL then (if n1 \<ge> n2 then 1 else 0)
                 else if op = OP_MIN then (if n1 < n2 then n1 else n2)
                 else (if n1 > n2 then n1 else n2));
                  s = push (pop (pop (stack st))) (Script_array num)
              in
              if op = OP_NUMEQUALVERIFY then
                (if \<not> Script_bool (top s 1) then SErr ''NUMEQUALVERIFY''
                 else Inr (st\<lparr>stack := pop s\<rparr>))
              else Inr (st\<lparr>stack := s\<rparr>)))"

text \<open>\<open>OP_CHECKLOCKTIMEVERIFY\<close> and \<open>OP_CHECKSEQUENCEVERIFY\<close>.\<close>

definition op_checklocktimeverify ::
  "flags \<Rightarrow> tx_ctx option \<Rightarrow> nat \<Rightarrow> exec_state \<Rightarrow> js_error + exec_state" where
  "op_checklocktimeverify flags tx index st =
     (if \<not> has_flag flags VERIFY_CHECKLOCKTIMEVERIFY then
        (if has_flag flags VERIFY_DISCOURAGE_UPGRADABLE_NOPS
         then SErr ''DISCOURAGE_UPGRADABLE_NOPS'' else Inr st)
      else case tx of
        None \<Rightarrow> SErr ''UNKNOWN_ERROR''
      | Some t \<Rightarrow>
          if length (stack st) = 0 then SErr ''INVALID_STACK_OPERATION''
          else case Script_num (top (stack st) 1) flags 5 of
            Inl e \<Rightarrow> Inl e
          | Inr locktime \<Rightarrow>
              if locktime < 0 then SErr ''NEGATIVE_LOCKTIME''
              else case checkLocktime locktime t index of
                Inl e \<Rightarrow> Inl e
              | Inr ok \<Rightarrow> if \<not> ok then SErr ''UNSATISFIED_LOCKTIME'' else Inr st)"

definition op_checksequenceverify ::
  "flags \<Rightarrow> tx_ctx option \<Rightarrow> nat \<Rightarrow> exec_state \<Rightarrow> js_error + exec_state" where
  "op_checksequenceverify flags tx index st =
     (if \<not> has_flag flags VERIFY_CHECKSEQUENCEVERIFY then
        (if has_flag flags VERIFY_DISCOURAGE_UPGRADABLE_NOPS
         then SErr ''DISCOURAGE_UPGRADABLE_NOPS'' else Inr st)
      else case tx of
        None \<Rightarrow> SErr ''UNKNOWN_ERROR''
      | Some t \<Rightarrow>
          if length (stack st) = 0 then SErr ''INVALID_STACK_OPERATION''
          else case Script_num (top (stack st) 1) flags 5 of
            Inl e \<Rightarrow> Inl e
          | Inr locktime \<Rightarrow>
              if locktime < 0 then SErr ''NEGATIVE_LOCKTIME''
              else if and32 locktime SEQUENCE_DISABLE_FLAG \<noteq> 0 then Inr st
              else case checkSequence locktime t index of
                Inl e \<Rightarrow> Inl e
              | Inr ok \<Rightarrow> if \<not> ok then SErr ''UNSATISFIED_LOCKTIME'' else Inr st)"

text \<open>
  The subscript that \<open>OP_CHECKSIG\<close> hashes: \<open>getSubscript(lastSep)\<close>, from which the
  legacy signature version removes the pushes of the signature.
\<close>

definition checksig_subscript :: "script \<Rightarrow> nat \<Rightarrow> byte list \<Rightarrow> int \<Rightarrow> js_error + script" where
  "checksig_subscript this sep sig version =
     (case getSubscript this sep of
        Inl e \<Rightarrow> Inl e
      | Inr subscript \<Rightarrow> if version = 0 then removeData subscript sig else Inr subscript)"

definition op_checksig ::
  "env \<Rightarrow> script \<Rightarrow> flags \<Rightarrow> tx_ctx option \<Rightarrow> nat \<Rightarrow> int \<Rightarrow> int \<Rightarrow> exec_state
   \<Rightarrow> js_error + exec_state" where
  "op_checksig E this flags tx index version op st =
     (case tx of
        None \<Rightarrow> SErr ''UNKNOWN_ERROR''
      | Some t \<Rightarrow>
          if length (stack st) < 2 then SErr ''INVALID_STACK_OPERATION''
          else
            let sig = top (stack st) 2; key = top (stack st) 1 in
            case checksig_subscript this (lastSep st) sig version of
              Inl e \<Rightarrow> Inl e
            | Inr subscript \<Rightarrow>
               (case validateSignature E sig flags of
                  Inl e \<Rightarrow> Inl e
                | Inr _ \<Rightarrow>
                   (case validateKey key flags version of
                      Inl e \<Rightarrow> Inl e
                    | Inr _ \<Rightarrow>
                        let res =
                          (if length sig > 0
                           then Script_checksig E
                                  (signatureHash t index subscript
                                     (unat (sig ! (length sig - 1))) version)
                                  sig key flags
                           else False)
                        in
                        if \<not> res \<and> has_flag flags VERIFY_NULLFAIL \<and> length sig \<noteq> 0
                          then SErr ''NULLFAIL''
                        else
                          let s = push (pop (pop (stack st)))
                                    (if res then STACK_TRUE else STACK_FALSE)
                          in
                          if op = OP_CHECKSIGVERIFY then
                            (if \<not> res then SErr ''CHECKSIGVERIFY''
                             else Inr (st\<lparr>stack := pop s\<rparr>))
                          else Inr (st\<lparr>stack := s\<rparr>))))"

text \<open>
  \<open>OP_CHECKMULTISIG\<close>. \<open>ms_remove\<close> is the loop that removes the \<open>m\<close> signatures from the
  subscript, \<open>ms_verify\<close> the loop \<open>while (res && m > 0)\<close> (its result is the final
  \<open>res\<close>), \<open>ms_pop\<close> the loop \<open>while (i-- > 1)\<close> with the number of iterations left.
\<close>

fun ms_remove :: "stack \<Rightarrow> nat \<Rightarrow> nat \<Rightarrow> nat \<Rightarrow> script \<Rightarrow> js_error + script" where
  "ms_remove s isig j 0 subscript = Inr subscript"
| "ms_remove s isig j (Suc k) subscript =
     (case removeData subscript (top s (isig + j)) of
        Inl e \<Rightarrow> Inl e
      | Inr subscript' \<Rightarrow> ms_remove s isig (j + 1) k subscript')"

function ms_verify ::
  "env \<Rightarrow> tx_ctx \<Rightarrow> nat \<Rightarrow> int \<Rightarrow> flags \<Rightarrow> script \<Rightarrow> stack \<Rightarrow> nat \<Rightarrow> nat \<Rightarrow> int \<Rightarrow> int
   \<Rightarrow> js_error + bool" where
  "ms_verify E t index version flags subscript s isig ikey m n =
     (if \<not> m > 0 then Inr True
      else case validateSignature E (top s isig) flags of
        Inl e \<Rightarrow> Inl e
      | Inr _ \<Rightarrow>
         (case validateKey (top s ikey) flags version of
            Inl e \<Rightarrow> Inl e
          | Inr _ \<Rightarrow>
              if length (top s isig) > 0
                 \<and> Script_checksig E
                      (signatureHash t index subscript
                         (unat (top s isig ! (length (top s isig) - 1))) version)
                      (top s isig) (top s ikey) flags
              then (if m - 1 > n - 1 then Inr False
                    else ms_verify E t index version flags subscript s (isig + 1) (ikey + 1)
                           (m - 1) (n - 1))
              else (if m > n - 1 then Inr False
                    else ms_verify E t index version flags subscript s isig (ikey + 1)
                           m (n - 1))))"
  by pat_completeness auto
termination
  by (relation "measure (\<lambda>(E, t, index, version, flags, subscript, s, isig, ikey, m, n). nat n)")
     auto

fun ms_pop :: "bool \<Rightarrow> nat \<Rightarrow> int \<Rightarrow> stack \<Rightarrow> js_error + stack" where
  "ms_pop nullfail 0 ikey2 s = Inr s"
| "ms_pop nullfail (Suc k) ikey2 s =
     (if nullfail \<and> ikey2 = 0 \<and> length (top s 1) \<noteq> 0 then SErr ''NULLFAIL''
      else ms_pop nullfail k (if ikey2 > 0 then ikey2 - 1 else ikey2) (pop s))"

definition op_checkmultisig ::
  "env \<Rightarrow> script \<Rightarrow> flags \<Rightarrow> tx_ctx option \<Rightarrow> nat \<Rightarrow> int \<Rightarrow> int \<Rightarrow> exec_state
   \<Rightarrow> js_error + exec_state" where
  "op_checkmultisig E this flags tx index version op st =
     (case tx of
        None \<Rightarrow> SErr ''UNKNOWN_ERROR''
      | Some t \<Rightarrow>
          if length (stack st) < 1 then SErr ''INVALID_STACK_OPERATION''
          else case Script_num (top (stack st) 1) flags 4 of
            Inl e \<Rightarrow> Inl e
          | Inr n \<Rightarrow>
              if \<not> (n \<ge> 0 \<and> n \<le> MAX_MULTISIG_PUBKEYS) then SErr ''PUBKEY_COUNT''
              else if opCount st + n > MAX_OPS then SErr ''OP_COUNT''
              else if length (stack st) < nat n + 2 then SErr ''INVALID_STACK_OPERATION''
              else case Script_num (top (stack st) (nat n + 2)) flags 4 of
                Inl e \<Rightarrow> Inl e
              | Inr m \<Rightarrow>
                  if \<not> (m \<ge> 0 \<and> m \<le> n) then SErr ''SIG_COUNT''
                  else if length (stack st) < nat n + 3 + nat m
                    then SErr ''INVALID_STACK_OPERATION''
                  else case getSubscript this (lastSep st) of
                    Inl e \<Rightarrow> Inl e
                  | Inr subscript0 \<Rightarrow>
                     (case (if version = 0
                            then ms_remove (stack st) (nat n + 3) 0 (nat m) subscript0
                            else Inr subscript0) of
                        Inl e \<Rightarrow> Inl e
                      | Inr subscript \<Rightarrow>
                         (case ms_verify E t index version flags subscript (stack st)
                                 (nat n + 3) 2 m n of
                            Inl e \<Rightarrow> Inl e
                          | Inr res \<Rightarrow>
                             (case ms_pop (\<not> res \<and> has_flag flags VERIFY_NULLFAIL)
                                     (nat n + nat m + 2) (n + 2) (stack st) of
                                Inl e \<Rightarrow> Inl e
                              | Inr s1 \<Rightarrow>
                                  if length s1 < 1 then SErr ''INVALID_STACK_OPERATION''
                                  else if has_flag flags VERIFY_NULLDUMMY
                                          \<and> length (top s1 1) \<noteq> 0
                                    then SErr ''SIG_NULLDUMMY''
                                  else
                                    let s2 = push (pop s1)
                                               (if res then STACK_TRUE else STACK_FALSE)
                                    in
                                    if op = OP_CHECKMULTISIGVERIFY then
                                      (if \<not> res then SErr ''CHECKMULTISIGVERIFY''
                                       else Inr (st\<lparr>stack := pop s2, opCount := opCount st + n\<rparr>))
                                    else Inr (st\<lparr>stack := s2, opCount := opCount st + n\<rparr>)))))"

text \<open>
  The second \<open>switch\<close> of the loop, reached by an opcode without data when the branch
  executes (\<open>negate = 0\<close>). The disabled opcodes never reach it, so their cases in the
  source cannot run and are left out; the \<open>default\<close> case is \<open>BAD_OPCODE\<close>.
\<close>

definition invalid_stack :: "js_error + exec_state" where
  "invalid_stack = SErr ''INVALID_STACK_OPERATION''"

definition exec_switch ::
  "env \<Rightarrow> script \<Rightarrow> flags \<Rightarrow> tx_ctx option \<Rightarrow> nat \<Rightarrow> int \<Rightarrow> nat \<Rightarrow> int \<Rightarrow> exec_state
   \<Rightarrow> js_error + exec_state" where
  "exec_switch E this flags tx index version ip op st =
     (let s = stack st in
      if op = OP_0 then Inr (st\<lparr>stack := push s STACK_FALSE\<rparr>)
      else if op = OP_1NEGATE then Inr (st\<lparr>stack := push s STACK_NEGATE\<rparr>)
      else if OP_1 \<le> op \<and> op \<le> OP_16 then Inr (st\<lparr>stack := push s [word_of_int (op - 0x50)]\<rparr>)
      else if op = OP_NOP then Inr st
      else if op = OP_CHECKLOCKTIMEVERIFY then op_checklocktimeverify flags tx index st
      else if op = OP_CHECKSEQUENCEVERIFY then op_checksequenceverify flags tx index st
      else if op = OP_NOP1 \<or> (OP_NOP4 \<le> op \<and> op \<le> OP_NOP10) then
        (if has_flag flags VERIFY_DISCOURAGE_UPGRADABLE_NOPS
         then SErr ''DISCOURAGE_UPGRADABLE_NOPS'' else Inr st)
      else if op = OP_VERIFY then
        (if length s = 0 then invalid_stack
         else if \<not> Script_bool (top s 1) then SErr ''VERIFY''
         else Inr (st\<lparr>stack := pop s\<rparr>))
      else if op = OP_RETURN then SErr ''OP_RETURN''
      else if op = OP_TOALTSTACK then
        (if length s = 0 then invalid_stack
         else Inr (st\<lparr>stack := pop s, alt := push (alt st) (top s 1)\<rparr>))
      else if op = OP_FROMALTSTACK then
        (if length (alt st) = 0 then SErr ''INVALID_ALTSTACK_OPERATION''
         else Inr (st\<lparr>stack := push s (top (alt st) 1), alt := pop (alt st)\<rparr>))
      else if op = OP_2DROP then
        (if length s < 2 then invalid_stack else Inr (st\<lparr>stack := pop (pop s)\<rparr>))
      else if op = OP_2DUP then
        (if length s < 2 then invalid_stack
         else Inr (st\<lparr>stack := push (push s (top s 2)) (top s 1)\<rparr>))
      else if op = OP_3DUP then
        (if length s < 3 then invalid_stack
         else Inr (st\<lparr>stack := push (push (push s (top s 3)) (top s 2)) (top s 1)\<rparr>))
      else if op = OP_2OVER then
        (if length s < 4 then invalid_stack
         else Inr (st\<lparr>stack := push (push s (top s 4)) (top s 3)\<rparr>))
      else if op = OP_2ROT then
        (if length s < 6 then invalid_stack
         else Inr (st\<lparr>stack := push (push (erase s 6 4) (top s 6)) (top s 5)\<rparr>))
      else if op = OP_2SWAP then
        (if length s < 4 then invalid_stack
         else Inr (st\<lparr>stack := swap (swap s 4 2) 3 1\<rparr>))
      else if op = OP_IFDUP then
        (if length s = 0 then invalid_stack
         else if Script_bool (top s 1) then Inr (st\<lparr>stack := push s (top s 1)\<rparr>)
         else Inr st)
      else if op = OP_DEPTH then Inr (st\<lparr>stack := push s (Script_array (int (length s)))\<rparr>)
      else if op = OP_DROP then
        (if length s = 0 then invalid_stack else Inr (st\<lparr>stack := pop s\<rparr>))
      else if op = OP_DUP then
        (if length s = 0 then invalid_stack else Inr (st\<lparr>stack := push s (top s 1)\<rparr>))
      else if op = OP_NIP then
        (if length s < 2 then invalid_stack else Inr (st\<lparr>stack := remove s 2\<rparr>))
      else if op = OP_OVER then
        (if length s < 2 then invalid_stack else Inr (st\<lparr>stack := push s (top s 2)\<rparr>))
      else if op = OP_PICK \<or> op = OP_ROLL then
        (if length s < 2 then invalid_stack
         else case Script_num (top s 1) flags 4 of
           Inl e \<Rightarrow> Inl e
         | Inr num \<Rightarrow>
             let s1 = pop s in
             if num < 0 \<or> num \<ge> int (length s1) then invalid_stack
             else
               let val = top s1 (nat num + 1) in
               if op = OP_ROLL then Inr (st\<lparr>stack := push (remove s1 (nat num + 1)) val\<rparr>)
               else Inr (st\<lparr>stack := push s1 val\<rparr>))
      else if op = OP_ROT then
        (if length s < 3 then invalid_stack
         else Inr (st\<lparr>stack := swap (swap s 3 2) 2 1\<rparr>))
      else if op = OP_SWAP then
        (if length s < 2 then invalid_stack else Inr (st\<lparr>stack := swap s 2 1\<rparr>))
      else if op = OP_TUCK then
        (if length s < 2 then invalid_stack
         else Inr (st\<lparr>stack := insert_at s 2 (top s 1)\<rparr>))
      else if op = OP_SIZE then
        (if length s < 1 then invalid_stack
         else Inr (st\<lparr>stack := push s (Script_array (int (length (top s 1))))\<rparr>))
      else if op = OP_EQUAL \<or> op = OP_EQUALVERIFY then
        (if length s < 2 then invalid_stack
         else
           let res = (top s 2 = top s 1);
               s1 = push (pop (pop s)) (if res then STACK_TRUE else STACK_FALSE)
           in
           if op = OP_EQUALVERIFY then
             (if \<not> res then SErr ''EQUALVERIFY'' else Inr (st\<lparr>stack := pop s1\<rparr>))
           else Inr (st\<lparr>stack := s1\<rparr>))
      else if op = OP_1ADD \<or> op = OP_1SUB \<or> op = OP_NEGATE \<or> op = OP_ABS \<or> op = OP_NOT
              \<or> op = OP_0NOTEQUAL then op_arith1 op flags st
      else if op = OP_ADD \<or> op = OP_SUB \<or> (OP_BOOLAND \<le> op \<and> op \<le> OP_MAX) then
        op_arith2 op flags st
      else if op = OP_WITHIN then
        (if length s < 3 then invalid_stack
         else case Script_num (top s 3) flags 4 of
           Inl e \<Rightarrow> Inl e
         | Inr n1 \<Rightarrow>
            (case Script_num (top s 2) flags 4 of
               Inl e \<Rightarrow> Inl e
             | Inr n2 \<Rightarrow>
                (case Script_num (top s 1) flags 4 of
                   Inl e \<Rightarrow> Inl e
                 | Inr n3 \<Rightarrow>
                     Inr (st\<lparr>stack := push (pop (pop (pop s)))
                              (if n2 \<le> n1 \<and> n1 < n3 then STACK_TRUE else STACK_FALSE)\<rparr>))))
      else if op = OP_RIPEMD160 then
        (if length s = 0 then invalid_stack
         else Inr (st\<lparr>stack := push (pop s) (ripemd160 E (top s 1))\<rparr>))
      else if op = OP_SHA1 then
        (if length s = 0 then invalid_stack
         else Inr (st\<lparr>stack := push (pop s) (sha1 E (top s 1))\<rparr>))
      else if op = OP_SHA256 then
        (if length s = 0 then invalid_stack
         else Inr (st\<lparr>stack := push (pop s) (sha256 E (top s 1))\<rparr>))
      else if op = OP_HASH160 then
        (if length s = 0 then invalid_stack
         else Inr (st\<lparr>stack := push (pop s) (hash160 E (top s 1))\<rparr>))
      else if op = OP_HASH256 then
        (if length s = 0 then invalid_stack
         else Inr (st\<lparr>stack := push (pop s) (hash256 E (top s 1))\<rparr>))
      else if op = OP_CODESEPARATOR then Inr (st\<lparr>lastSep := ip + 1\<rparr>)
      else if op = OP_CHECKSIG \<or> op = OP_CHECKSIGVERIFY then
        op_checksig E this flags tx index version op st
      else if op = OP_CHECKMULTISIG \<or> op = OP_CHECKMULTISIGVERIFY then
        op_checkmultisig E this flags tx index version op st
      else SErr ''BAD_OPCODE'')"

text \<open>
  One iteration of the loop of \<open>execute\<close>, for the opcode \<open>c\<close> at position \<open>ip\<close>.
  \<open>++opCount\<close> is evaluated only for an opcode above \<open>OP_16\<close>.
\<close>

definition exec_op ::
  "env \<Rightarrow> script \<Rightarrow> flags \<Rightarrow> tx_ctx option \<Rightarrow> nat \<Rightarrow> int \<Rightarrow> nat \<Rightarrow> opcode \<Rightarrow> exec_state
   \<Rightarrow> js_error + exec_state" where
  "exec_op E this flags tx index version ip c st =
     (if op_value c = - 1 then SErr ''BAD_OPCODE''
      else case op_data c of
        Some data \<Rightarrow>
          if length data > MAX_PUSH then SErr ''PUSH_SIZE''
          else if negate st = 0 then
            (if \<not> Script_isMinimal data (op_value c) flags then SErr ''MINIMALDATA''
             else Inr (st\<lparr>stack := push (stack st) data\<rparr>))
          else Inr st
      | None \<Rightarrow>
          if op_value c > OP_16 \<and> opCount st + 1 > MAX_OPS then SErr ''OP_COUNT''
          else
            let st1 = (if op_value c > OP_16 then st\<lparr>opCount := opCount st + 1\<rparr> else st) in
            if is_disabled (op_value c) then SErr ''DISABLED_OPCODE''
            else if op_value c \<ge> OP_IF \<and> op_value c \<le> OP_ENDIF
              then exec_conditional flags version (op_value c) st1
            else if negate st1 \<noteq> 0 then Inr st1
            else exec_switch E this flags tx index version ip (op_value c) st1)"

text \<open>The loop \<open>for (ip = 0; ip < this.code.length; ip++)\<close> over the code that is left.\<close>

fun exec_loop ::
  "env \<Rightarrow> script \<Rightarrow> flags \<Rightarrow> tx_ctx option \<Rightarrow> nat \<Rightarrow> int \<Rightarrow> nat \<Rightarrow> opcode list \<Rightarrow> exec_state
   \<Rightarrow> js_error + exec_state" where
  "exec_loop E this flags tx index version ip [] st = Inr st"
| "exec_loop E this flags tx index version ip (c # cs) st =
     (case exec_op E this flags tx index version ip c st of
        Inl e \<Rightarrow> Inl e
      | Inr st' \<Rightarrow> exec_loop E this flags tx index version (ip + 1) cs st')"

definition init_state :: "stack \<Rightarrow> exec_state" where
  "init_state s = \<lparr>stack = s, alt = [], state = [], negate = 0, opCount = 0, lastSep = 0\<rparr>"

text \<open>
  \<open>Script.prototype.execute(stack, flags, tx, index, version)\<close> with the flags given.
  The result is the stack as the call leaves it when it returns true.
\<close>

definition execute ::
  "env \<Rightarrow> script \<Rightarrow> stack \<Rightarrow> flags \<Rightarrow> tx_ctx option \<Rightarrow> nat \<Rightarrow> int \<Rightarrow> js_error + stack" where
  "execute E this s flags tx index version =
     (if length (raw this) > MAX_SCRIPT_SIZE then SErr ''SCRIPT_SIZE''
      else case exec_loop E this flags tx index version 0 (code this) (init_state s) of
        Inl e \<Rightarrow> Inl e
      | Inr st \<Rightarrow>
          if length (stack st) + length (alt st) > MAX_STACK then SErr ''STACK_SIZE''
          else if length (state st) \<noteq> 0 then SErr ''UNBALANCED_CONDITIONAL''
          else Inr (stack st))"

text \<open>
  The state of the loop after its first \<open>k\<close> iterations, for statements about the points
  in between.
\<close>

definition state_after ::
  "env \<Rightarrow> script \<Rightarrow> stack \<Rightarrow> flags \<Rightarrow> tx_ctx option \<Rightarrow> nat \<Rightarrow> int \<Rightarrow> nat
   \<Rightarrow> js_error + exec_state" where
  "state_after E this s flags tx index version k =
     exec_loop E this flags tx index version 0 (take k (code this)) (init_state s)"

subsection \<open>Script.verify\<close>

text \<open>\<open>isPushOnly\<close>, \<open>isScripthash\<close> and \<open>isProgram\<close>.\<close>

fun isPushOnly_code :: "opcode list \<Rightarrow> bool" where
  "isPushOnly_code [] = True"
| "isPushOnly_code (op # rest) =
     (case op_data op of
        Some d \<Rightarrow> isPushOnly_code rest
      | None \<Rightarrow>
          if op_value op = - 1 then False
          else if op_value op > OP_16 then False
          else isPushOnly_code rest)"

definition isPushOnly :: "script \<Rightarrow> bool" where
  "isPushOnly s = isPushOnly_code (code s)"

definition isScripthash :: "script \<Rightarrow> bool" where
  "isScripthash s =
     (length (raw s) = 23 \<and> uint (raw s ! 0) = OP_HASH160 \<and> uint (raw s ! 1) = 0x14
      \<and> uint (raw s ! 22) = OP_EQUAL)"

definition isProgram :: "script \<Rightarrow> bool" where
  "isProgram s =
     (if \<not> (length (raw s) \<ge> 4 \<and> length (raw s) \<le> 42) then False
      else if uint (raw s ! 0) \<noteq> OP_0
              \<and> \<not> (uint (raw s ! 0) \<ge> OP_1 \<and> uint (raw s ! 0) \<le> OP_16) then False
      else if unat (raw s ! 1) + 2 \<noteq> length (raw s) then False
      else True)"

text \<open>
  Modelled from the spec: \<open>Opcode.fromPush(data).toRaw()\<close> (lib/script/opcode.js is not
  among the sources), by section 4.1: lengths up to \<open>0x4b\<close> are written as the single
  length byte, longer ones with the \<open>PUSHDATA1/2/4\<close> prefixes.
\<close>

definition fromPush_toRaw :: "byte list \<Rightarrow> byte list" where
  "fromPush_toRaw data =
     (if length data \<le> 0x4b then writeU8 (int (length data)) @ data
      else if length data \<le> 0xff then writeU8 OP_PUSHDATA1 @ writeU8 (int (length data)) @ data
      else if length data \<le> 0xffff then writeU8 OP_PUSHDATA2 @ writeU16 (length data) @ data
      else writeU8 OP_PUSHDATA4 @ writeU32 (length data) @ data)"

record witness =
  items :: "byte list list"

text \<open>
  \<open>Script.verify(input, witness, output, tx, i, flags)\<close>. The witness-program verifier
  \<open>Script.verifyProgram\<close> is the parameter \<open>vp\<close> (\<open>Some e\<close> when it throws \<open>e\<close>): the
  properties below hold whatever it does.
\<close>

definition Script_verify ::
  "env \<Rightarrow> (witness \<Rightarrow> script \<Rightarrow> flags \<Rightarrow> tx_ctx option \<Rightarrow> nat \<Rightarrow> js_error option)
   \<Rightarrow> script \<Rightarrow> witness \<Rightarrow> script \<Rightarrow> tx_ctx option \<Rightarrow> nat \<Rightarrow> flags \<Rightarrow> js_error + bool" where
  "Script_verify E vp input wit output tx i flags =
     (if has_flag flags VERIFY_SIGPUSHONLY \<and> \<not> isPushOnly input then SErr ''SIG_PUSHONLY''
      else case execute E input [] flags tx i 0 of
        Inl e \<Rightarrow> Inl e
      | Inr copy \<Rightarrow>
         (case execute E output copy flags tx i 0 of
            Inl e \<Rightarrow> Inl e
          | Inr s1 \<Rightarrow>
              if length s1 = 0 \<or> \<not> Script_bool (top s1 1) then SErr ''EVAL_FALSE''
              else case
                (if has_flag flags VERIFY_WITNESS \<and> isProgram output then
                   (if length (raw input) \<noteq> 0 then SErr ''WITNESS_MALLEATED''
                    else case vp wit output flags tx i of
                      Some e \<Rightarrow> Inl e
                    | None \<Rightarrow> Inr (take 1 s1, True))
                 else Inr (s1, False)) of
                Inl e \<Rightarrow> Inl e
              | Inr (s2, hadWitness2) \<Rightarrow>
                 (case
                    (if has_flag flags VERIFY_P2SH \<and> isScripthash output then
                       (if \<not> isPushOnly input then SErr ''SIG_PUSHONLY''
                        else if length copy = 0 then SErr ''EVAL_FALSE''
                        else
                          let redeem = Script_fromRaw (top copy 1) in
                          case execute E redeem (pop copy) flags tx i 0 of
                            Inl e \<Rightarrow> Inl e
                          | Inr s3 \<Rightarrow>
                              if length s3 = 0 \<or> \<not> Script_bool (top s3 1)
                                then SErr ''EVAL_FALSE''
                              else if has_flag flags VERIFY_WITNESS \<and> isProgram redeem then
                                (if raw input \<noteq> fromPush_toRaw (top copy 1)
                                   then SErr ''WITNESS_MALLEATED_P2SH''
                                 else case vp wit redeem flags tx i of
                                   Some e \<Rightarrow> Inl e
                                 | None \<Rightarrow> Inr (take 1 s3, True))
                              else Inr (s3, hadWitness2))
                     else Inr (s2, hadWitness2)) of
                    Inl e \<Rightarrow> Inl e
                  | Inr (s4, hadWitness) \<Rightarrow>
                      if has_flag flags VERIFY_CLEANSTACK \<and> \<not> has_flag flags VERIFY_P2SH
                        then Inl AssertionError
                      else if has_flag flags VERIFY_CLEANSTACK \<and> length s4 \<noteq> 1
                        then SErr ''CLEANSTACK''
                      else if has_flag flags VERIFY_WITNESS \<and> \<not> has_flag flags VERIFY_P2SH
                        then Inl AssertionError
                      else if has_flag flags VERIFY_WITNESS \<and> \<not> hadWitness
                              \<and> length (items wit) > 0
                        then SErr ''WITNESS_UNEXPECTED''
                      else Inr True)))"

subsection \<open>The pay-to-pubkeyhash scenario\<close>

text \<open>\<open>Script.prototype.fromPubkeyhash(hash)\<close>, after the \<open>assert\<close> on the hash.\<close>

definition fromPubkeyhash :: "byte list \<Rightarrow> js_error + script" where
  "fromPubkeyhash h =
     (if length h \<noteq> 20 then Inl AssertionError
      else Inr \<lparr>raw = [word_of_int OP_DUP, word_of_int OP_HASH160, 0x14] @ h
                       @ [word_of_int OP_EQUALVERIFY, word_of_int OP_CHECKSIG],
               code = [Opcode OP_DUP None, Opcode OP_HASH160 None, Opcode 0x14 (Some h),
                       Opcode OP_EQUALVERIFY None, Opcode OP_CHECKSIG None]\<rparr>)"

text \<open>
  Scenario 1 of section 8 of the specification: \<open>Script.verify\<close> of the input script that
  pushes the signature and the public key, with an empty witness, against the
  pay-to-pubkeyhash script of \<open>hash160(pubkey)\<close>, for input 0 of the transaction.
\<close>

definition p2pkh_input :: "byte list \<Rightarrow> byte list \<Rightarrow> script" where
  "p2pkh_input sig pubkey = Script_fromRaw (fromPush_toRaw sig @ fromPush_toRaw pubkey)"

definition p2pkh_verify ::
  "env \<Rightarrow> (witness \<Rightarrow> script \<Rightarrow> flags \<Rightarrow> tx_ctx option \<Rightarrow> nat \<Rightarrow> js_error option)
   \<Rightarrow> byte list \<Rightarrow> byte list \<Rightarrow> tx_ctx option \<Rightarrow> flags \<Rightarrow> js_error + bool" where
  "p2pkh_verify E vp sig pubkey tx flags =
     (case fromPubkeyhash (hash160 E pubkey) of
        Inl e \<Rightarrow> Inl e
      | Inr output \<Rightarrow>
          Script_verify E vp (p2pkh_input sig pubkey) \<lparr>items = []\<rparr> output tx 0 flags)"

text \<open>
  The signature check that \<open>OP_CHECKSIG\<close> of that output script makes for the signature
  and the key: \<open>Script.checksig\<close> on the signature hash of the subscript from which the
  signature was removed, the hash type being the last byte of the signature.
\<close>

definition p2pkh_checksig ::
  "env \<Rightarrow> tx_ctx \<Rightarrow> byte list \<Rightarrow> byte list \<Rightarrow> flags \<Rightarrow> js_error + bool" where
  "p2pkh_checksig E t sig pubkey flags =
     (case fromPubkeyhash (hash160 E pubkey) of
        Inl e \<Rightarrow> Inl e
      | Inr output \<Rightarrow>
         (case checksig_subscript output 0 sig 0 of
            Inl e \<Rightarrow> Inl e
          | Inr subscript \<Rightarrow>
              Inr (Script_checksig E
                     (signatureHash t 0 subscript (unat (sig ! (length sig - 1))) 0)
                     sig pubkey flags)))"

subsection \<open>A concrete environment for evaluating scenarios\<close>

text \<open>
  The theorems about the interpreter hold for every environment. Where a scenario is
  evaluated on concrete scripts, the collaborators are these stand-ins: digests that pad
  or cut their input to the digest length, a signature check that accepts exactly the
  signature made of the message followed by the key, a transaction with one input, and a
  witness-program verifier that accepts.
\<close>

definition toy_digest :: "nat \<Rightarrow> byte list \<Rightarrow> byte list" where
  "toy_digest n b = take n (b @ replicate n 0)"

definition toy_env :: env where
  "toy_env = \<lparr>ripemd160 = toy_digest 20, sha1 = toy_digest 20, sha256 = toy_digest 32,
               hash160 = toy_digest 20, hash256 = toy_digest 32,
               isLowS = (\<lambda>sig. True),
               SigCache_verify = (\<lambda>msg sig key historical high. sig = msg @ key)\<rparr>"

definition toy_tx :: tx_ctx where
  "toy_tx = \<lparr>tx_locktime = 0, tx_version = 1, tx_sequence = [0xffffffff],
              signatureHash = (\<lambda>index subscript type version. toy_digest 32 (raw subscript))\<rparr>"

definition toy_verifyProgram ::
  "witness \<Rightarrow> script \<Rightarrow> flags \<Rightarrow> tx_ctx option \<Rightarrow> nat \<Rightarrow> js_error option" where
  "toy_verifyProgram wit output flags tx i = None"

section \<open>Coins (lib/chain/coins.js)\<close>

text \<open>
  Modelled from the spec: the \<open>BufferReader\<close> (lib/utils/reader.js is not among the
  sources) as the buffer and an offset into it. Each read returns the value and the
  offset after it, and fails with an \<open>AssertionError\<close> when it would pass the end of the
  buffer. A varint (section 4.6) is the variable-length integer of the Bitcoin wire
  format: one byte below \<open>0xfd\<close>, or the marker \<open>0xfd\<close>, \<open>0xfe\<close>, \<open>0xff\<close> followed by 2, 4, 8
  little-endian bytes, an 8-byte value being limited to 53 bits.
\<close>

fun le_nat :: "byte list \<Rightarrow> nat" where
  "le_nat [] = 0"
| "le_nat (b # bs) = unat b + 256 * le_nat bs"

definition p_left :: "byte list \<Rightarrow> nat \<Rightarrow> nat" where
  "p_left data off = length data - off"

definition p_seek :: "byte list \<Rightarrow> nat \<Rightarrow> nat \<Rightarrow> js_error + nat" where
  "p_seek data off n = (if off + n \<le> length data then Inr (off + n) else Inl AssertionError)"

definition p_readU8 :: "byte list \<Rightarrow> nat \<Rightarrow> js_error + (nat \<times> nat)" where
  "p_readU8 data off =
     (if off + 1 \<le> length data then Inr (unat (data ! off), off + 1) else Inl AssertionError)"

definition p_readU32 :: "byte list \<Rightarrow> nat \<Rightarrow> js_error + (nat \<times> nat)" where
  "p_readU32 data off =
     (if off + 4 \<le> length data then Inr (le_nat (take 4 (drop off data)), off + 4)
      else Inl AssertionError)"

definition p_readVarint :: "byte list \<Rightarrow> nat \<Rightarrow> js_error + (nat \<times> nat)" where
  "p_readVarint data off =
     (if \<not> off < length data then Inl AssertionError
      else
        let b = unat (data ! off) in
        if b = 0xff then
          (if \<not> off + 9 \<le> length data then Inl AssertionError
           else
             let v = le_nat (take 8 (drop (off + 1) data)) in
             if v > 0x1fffffffffffff then Inl AssertionError else Inr (v, off + 9))
        else if b = 0xfe then
          (if \<not> off + 5 \<le> length data then Inl AssertionError
           else Inr (le_nat (take 4 (drop (off + 1) data)), off + 5))
        else if b = 0xfd then
          (if \<not> off + 3 \<le> length data then Inl AssertionError
           else Inr (le_nat (take 2 (drop (off + 1) data)), off + 3))
        else Inr (b, off + 1))"

text \<open>
  A coin, and an entry of \<open>Coins.outputs\<close>: \<open>null\<close>, a \<open>Coin\<close>, or a \<open>CompressedCoin\<close> with
  its \<open>offset\<close>, \<open>size\<close> and \<open>raw\<close> buffer. The type of scripts is a parameter.
\<close>

record 's coin =
  coin_version :: int
  coin_height :: int
  coin_value :: int
  coin_script :: 's
  coin_coinbase :: bool
  coin_hash :: string
  coin_index :: nat

datatype 's coin_entry = Null | Decoded "'s coin" | CompressedCoin nat nat "byte list"

record 's coins =
  coins_version :: int
  coins_hash :: string
  coins_height :: int
  coins_coinbase :: bool
  coins_outputs :: "'s coin_entry list"

text \<open>
  \<open>CompressedCoin.prototype.toCoin(coins, index)\<close>. \<open>decompress.script\<close> (lib/utils/compress.js
  is not among the sources) is the parameter \<open>dec\<close>: from the buffer and an offset, the
  script and the offset after it, or the error thrown.
\<close>

definition toCoin ::
  "(byte list \<Rightarrow> nat \<Rightarrow> js_error + ('s \<times> nat)) \<Rightarrow> 's coin_entry \<Rightarrow> 's coins \<Rightarrow> nat
   \<Rightarrow> js_error + 's coin" where
  "toCoin dec this cs index =
     (case this of
        CompressedCoin offset sz rw \<Rightarrow>
         (case p_seek rw 0 offset of
            Inl e \<Rightarrow> Inl e
          | Inr o1 \<Rightarrow>
             (case dec rw o1 of
                Inl e \<Rightarrow> Inl e
              | Inr (scr, o2) \<Rightarrow>
                 (case p_readVarint rw o2 of
                    Inl e \<Rightarrow> Inl e
                  | Inr (v, o3) \<Rightarrow>
                      Inr \<lparr>coin_version = coins_version cs, coin_height = coins_height cs,
                           coin_value = int v, coin_script = scr,
                           coin_coinbase = coins_coinbase cs, coin_hash = coins_hash cs,
                           coin_index = index\<rparr>)))
      | _ \<Rightarrow> Inl TypeError)"

text \<open>\<open>Coins.prototype.get(index)\<close>; \<open>None\<close> is \<open>undefined\<close>.\<close>

definition Coins_get ::
  "(byte list \<Rightarrow> nat \<Rightarrow> js_error + ('s \<times> nat)) \<Rightarrow> 's coins \<Rightarrow> nat
   \<Rightarrow> js_error + 's coin option" where
  "Coins_get dec cs index =
     (if \<not> index < length (coins_outputs cs) then Inr None
      else case coins_outputs cs ! index of
        Null \<Rightarrow> Inr None
      | Decoded c \<Rightarrow> Inr (Some c)
      | CompressedCoin offset sz rw \<Rightarrow>
         (case toCoin dec (CompressedCoin offset sz rw) cs index of
            Inl e \<Rightarrow> Inl e
          | Inr c \<Rightarrow> Inr (Some c)))"

text \<open>
  \<open>Coins.prototype.fromRaw(data, hash, index)\<close>. The bit of the spent field for output
  \<open>i\<close>; an index past the end of the buffer reads \<open>undefined\<close>, whose bits are 0.
\<close>

definition spent_bit :: "byte list \<Rightarrow> nat \<Rightarrow> nat \<Rightarrow> bool" where
  "spent_bit data fstart i =
     (let b = i mod 8; oct = (i - b) div 8 in
      if fstart + oct < length data
      then drop_bit (7 - b) (data ! (fstart + oct)) AND 1 \<noteq> 0
      else False)"

text \<open>
  The \<open>switch\<close> that skips a compressed script by its prefix, and with the \<open>readVarint\<close>
  that skips the value: the offset after the output that starts at \<open>off\<close>.
\<close>

definition skip_script :: "byte list \<Rightarrow> nat \<Rightarrow> js_error + nat" where
  "skip_script data off =
     (case p_readU8 data off of
        Inl e \<Rightarrow> Inl e
      | Inr (pfx, o1) \<Rightarrow>
          if pfx = 0 then
            (case p_readVarint data o1 of
               Inl e \<Rightarrow> Inl e
             | Inr (n, o2) \<Rightarrow> p_seek data o2 n)
          else if pfx = 1 \<or> pfx = 2 then p_seek data o1 20
          else if pfx = 3 then p_seek data o1 33
          else Inl (Error ''Bad prefix.''))"

definition skip_coin :: "byte list \<Rightarrow> nat \<Rightarrow> js_error + nat" where
  "skip_coin data off =
     (case skip_script data off of
        Inl e \<Rightarrow> Inl e
      | Inr o3 \<Rightarrow>
         (case p_readVarint data o3 of
            Inl e \<Rightarrow> Inl e
          | Inr (v, o4) \<Rightarrow> Inr o4))"

lemma p_readVarint_advances: "p_readVarint data off = Inr (v, o2) \<Longrightarrow> off < o2"
  by (auto simp add: p_readVarint_def Let_def split: if_splits)

lemma skip_script_advances: "skip_script data off = Inr o3 \<Longrightarrow> off < o3"
  by (auto simp add: skip_script_def p_readU8_def p_seek_def
      dest!: p_readVarint_advances split: sum.splits if_splits prod.splits)

lemma skip_coin_advances: "skip_coin data off = Inr o4 \<Longrightarrow> off < o4"
  by (auto simp add: skip_coin_def dest!: p_readVarint_advances skip_script_advances
      split: sum.splits prod.splits)

lemma spent_bit_bound: "spent_bit data fstart i \<Longrightarrow> i < 8 * length data"
proof -
  assume "spent_bit data fstart i"
  then have "fstart + (i - i mod 8) div 8 < length data"
    by (simp add: spent_bit_def Let_def split: if_splits)
  moreover have "(i - i mod 8) div 8 = i div 8"
    by (simp add: minus_mod_eq_mult_div)
  ultimately have "i div 8 < length data" by simp
  then show ?thesis by (simp add: less_mult_imp_div_less div_less_iff_less_mult)
qed

text \<open>
  The loop \<open>while (p.left())\<close>, from the offset \<open>off\<close> and the output number \<open>i\<close>. The
  result is \<open>this.outputs\<close> and, when an index was asked for and its coin was found, the
  compressed coin with the \<open>i\<close> passed to \<open>toCoin\<close>.
\<close>

function fromRaw_loop ::
  "byte list \<Rightarrow> nat \<Rightarrow> nat option \<Rightarrow> nat \<Rightarrow> nat \<Rightarrow> 's coin_entry list
   \<Rightarrow> js_error + ('s coin_entry list \<times> ('s coin_entry \<times> nat) option)" where
  "fromRaw_loop data fstart index off i outs =
     (if p_left data off = 0 then Inr (outs, None)
      else if spent_bit data fstart i then
        (case index of
           Some k \<Rightarrow>
             if i = k then Inr (outs, None)
             else fromRaw_loop data fstart index off (i + 1) outs
         | None \<Rightarrow> fromRaw_loop data fstart index off (i + 1) (outs @ [Null]))
      else
        case skip_coin data off of
          Inl e \<Rightarrow> Inl e
        | Inr off' \<Rightarrow>
           (case index of
              Some k \<Rightarrow>
                if i \<noteq> k then fromRaw_loop data fstart index off' (i + 1) outs
                else Inr (outs, Some (CompressedCoin off (off' - off) data, i))
            | None \<Rightarrow>
                fromRaw_loop data fstart index off' (i + 1)
                  (outs @ [CompressedCoin off (off' - off) data])))"
  by pat_completeness auto
termination
proof (relation "measures [\<lambda>(data, fstart, index, off, i, outs). length data - off,
                           \<lambda>(data, fstart, index, off, i, outs). 8 * length data - i]")
  show "wf (measures [\<lambda>(data, fstart, index, off, i, outs). length data - off,
                      \<lambda>(data :: byte list, fstart :: nat, index :: nat option, off :: nat,
                         i :: nat, outs :: 's coin_entry list). 8 * length data - i])"
    by simp
qed (auto simp add: p_left_def dest: skip_coin_advances spent_bit_bound)

declare fromRaw_loop.simps [simp del]

text \<open>
  The part of \<open>fromRaw\<close> before the loop: version, height, coinbase flag, the start of
  the spent field and the offset after it.
\<close>

definition fromRaw_header :: "byte list \<Rightarrow> js_error + (int \<times> int \<times> bool \<times> nat \<times> nat)" where
  "fromRaw_header data =
     (case p_readVarint data 0 of
        Inl e \<Rightarrow> Inl e
      | Inr (version, o1) \<Rightarrow>
         (case p_readU32 data o1 of
            Inl e \<Rightarrow> Inl e
          | Inr (bits, o2) \<Rightarrow>
             (case p_readVarint data o2 of
                Inl e \<Rightarrow> Inl e
              | Inr (flen, fstart) \<Rightarrow>
                 (case p_seek data fstart flen of
                    Inl e \<Rightarrow> Inl e
                  | Inr o3 \<Rightarrow>
                      Inr (int version,
                           (if bits div 2 = 0x7fffffff then - 1 else int (bits div 2)),
                           bits mod 2 \<noteq> 0, fstart, o3)))))"

text \<open>\<open>Coins.fromRaw(data, hash)\<close>: the call without an index, which returns \<open>this\<close>.\<close>

definition Coins_fromRaw :: "byte list \<Rightarrow> string \<Rightarrow> js_error + 's coins" where
  "Coins_fromRaw data hash =
     (case fromRaw_header data of
        Inl e \<Rightarrow> Inl e
      | Inr (version, height, coinbase, fstart, off) \<Rightarrow>
         (case fromRaw_loop data fstart None off 0 [] of
            Inl e \<Rightarrow> Inl e
          | Inr (outs, found) \<Rightarrow>
              Inr \<lparr>coins_version = version, coins_hash = hash, coins_height = height,
                   coins_coinbase = coinbase, coins_outputs = outs\<rparr>))"

text \<open>
  \<open>Coins.parseCoin(data, hash, index)\<close>: the call with an index, which returns the coin
  or \<open>undefined\<close>. \<open>this\<close> has no outputs when \<open>toCoin\<close> reads it.
\<close>

definition parseCoin ::
  "(byte list \<Rightarrow> nat \<Rightarrow> js_error + ('s \<times> nat)) \<Rightarrow> byte list \<Rightarrow> string \<Rightarrow> nat
   \<Rightarrow> js_error + 's coin option" where
  "parseCoin dec data hash index =
     (case fromRaw_header data of
        Inl e \<Rightarrow> Inl e
      | Inr (version, height, coinbase, fstart, off) \<Rightarrow>
         (case fromRaw_loop data fstart (Some index) off 0 [] of
            Inl e \<Rightarrow> Inl e
          | Inr (outs, None) \<Rightarrow> Inr None
          | Inr (outs, Some (c, i)) \<Rightarrow>
             (case toCoin dec c
                     \<lparr>coins_version = version, coins_hash = hash, coins_height = height,
                      coins_coinbase = coinbase, coins_outputs = outs\<rparr> i of
                Inl e \<Rightarrow> Inl e
              | Inr cn \<Rightarrow> Inr (Some cn))))"












text \<open>
  A concrete script codec for evaluating the coins codec on concrete buffers: a script
  is its raw bytes, always compressed with the prefix \<open>0x00\<close>, a varint length and the
  bytes.
\<close>

definition toy_decompress :: "byte list \<Rightarrow> nat \<Rightarrow> js_error + (byte list \<times> nat)" where
  "toy_decompress data off =
     (case p_readU8 data off of
        Inl e \<Rightarrow> Inl e
      | Inr (pfx, o1) \<Rightarrow>
          if pfx = 0 then
            (case p_readVarint data o1 of
               Inl e \<Rightarrow> Inl e
             | Inr (n, o2) \<Rightarrow>
                (case p_seek data o2 n of
                   Inl e \<Rightarrow> Inl e
                 | Inr o3 \<Rightarrow> Inr (take n (drop o2 data), o3)))
          else Inl (Error ''Bad prefix.''))"


section \<open>Block subsidy: results\<close>

lemma toInt32_small: "0 \<le> x \<Longrightarrow> x < 2 ^ 31 \<Longrightarrow> toInt32 x = x"
  by (simp add: toInt32_def int_word_sint)

lemma ushr_2500000000:
  assumes "0 \<le> k" "k < 32"
  shows "ushr 2500000000 k = 2500000000 div 2 ^ nat k"
proof -
  have "uint (drop_bit (nat k) (2500000000 :: 32 word))
          = int (unat (drop_bit (nat k) (2500000000 :: 32 word)))"
    by simp
  also have "\<dots> = int (drop_bit (nat k) (unat (2500000000 :: 32 word)))"
    by (simp only: unat_drop_bit_eq)
  also have "\<dots> = 2500000000 div 2 ^ nat k"
    by (simp add: drop_bit_eq_div zdiv_int)
  finally have "uint (drop_bit (nat k) (2500000000 :: 32 word)) = 2500000000 div 2 ^ nat k" .
  moreover have "nat (k mod 32) = nat k" using assms by simp
  ultimately show ?thesis by (simp add: ushr_def)
qed

lemma halve_step: "(5000000000 :: int) div 2 ^ Suc n = 2500000000 div 2 ^ n"
proof -
  have "(5000000000 :: int) div 2 ^ Suc n = (5000000000 div 2) div 2 ^ n"
    by (simp add: div_mult2_eq)
  then show ?thesis by simp
qed

lemma subsidy_vanishes:
  assumes "33 \<le> n"
  shows "(5000000000 :: int) div 2 ^ n = 0"
proof -
  have "(2 :: int) ^ 33 \<le> 2 ^ n" using assms by (intro power_increasing) auto
  then have "(5000000000 :: int) < 2 ^ n" by simp
  then show ?thesis by simp
qed

text \<open>
  Below the wrap of \<open>| 0\<close>: for every height \<open>h \<ge> 0\<close> and positive halving interval
  whose quotient \<open>h div interval\<close> stays below \<open>2 ^ 31\<close>, \<open>Block.reward\<close> returns
  \<open>5000000000 div 2 ^ halvings\<close>, and exactly 0 once the number of halvings is at least 33.
\<close>

lemma reward_below_wrap:
  assumes "0 \<le> h" "0 < interval" "h div interval < 2 ^ 31"
  shows "reward h interval = Inr (5000000000 div 2 ^ nat (h div interval))
         \<and> (33 \<le> h div interval \<longrightarrow> reward h interval = Inr 0)"
proof -
  define q where "q = h div interval"
  have q0: "0 \<le> q" using assms by (simp add: q_def pos_imp_zdiv_nonneg_iff)
  have tq: "toInt32 q = q" using q0 assms(3) by (simp add: toInt32_small q_def)
  have main: "reward h interval = Inr (5000000000 div 2 ^ nat q)"
  proof (cases "33 \<le> q")
    case True
    then have "33 \<le> nat q" by simp
    then have "(5000000000 :: int) div 2 ^ nat q = 0" by (rule subsidy_vanishes)
    with True tq assms(1) show ?thesis by (simp add: reward_def q_def[symmetric])
  next
    case False
    show ?thesis
    proof (cases "q = 0")
      case True
      with tq assms(1) show ?thesis by (simp add: reward_def q_def[symmetric])
    next
      case nz: False
      with q0 have q1: "0 \<le> q - 1" "q - 1 < 32" using False by auto
      have "nat q = Suc (nat (q - 1))" using nz q0 by simp
      then have "(5000000000 :: int) div 2 ^ nat q = 2500000000 div 2 ^ nat (q - 1)"
        by (simp only: halve_step)
      moreover have "ushr 2500000000 (q - 1) = 2500000000 div 2 ^ nat (q - 1)"
        using q1 by (rule ushr_2500000000)
      ultimately show ?thesis
        using False nz tq assms(1) by (simp add: reward_def q_def[symmetric])
    qed
  qed
  moreover have "33 \<le> q \<longrightarrow> reward h interval = Inr 0"
    using tq assms(1) by (simp add: reward_def q_def[symmetric])
  ultimately show ?thesis by (simp add: q_def)
qed

text \<open>
  C9. The subsidy is \<open>5000000000\<close> shifted right by the number of halvings, and 0 once
  that number is at least 33; the guard \<open>if (halvings >= 33) return 0\<close> and its comment
  on BIP 42 say so in the code. \<open>height / halvingInterval | 0\<close> reduces the quotient
  modulo \<open>2 ^ 32\<close> first. At height \<open>2 ^ 31 * 210000\<close> the quotient \<open>2 ^ 31\<close> becomes
  \<open>- 2 ^ 31\<close>, neither guard fires and \<open>2500000000 >>> 31 = 1\<close> is returned; at height
  \<open>2 ^ 32 * 210000\<close> the quotient becomes 0 and the full \<open>5000000000\<close> is returned. In
  both cases the number of halvings is at least 33 and the subsidy should be 0.
\<close>

theorem C9_reward_wraps:
  "reward 450971566080000 210000 = Inr 1
   \<and> (33 :: int) \<le> 450971566080000 div 210000
   \<and> reward 901943132160000 210000 = Inr 5000000000
   \<and> (33 :: int) \<le> 901943132160000 div 210000"
proof -
  have "toInt32 (450971566080000 div 210000) = - 2147483648"
    by (simp add: toInt32_def)
  moreover have "ushr 2500000000 (- 2147483648 - 1) = 1"
    by (simp add: ushr_def drop_bit_eq_div)
  ultimately have a: "reward 450971566080000 210000 = Inr 1" by (simp add: reward_def)
  have "toInt32 (901943132160000 div 210000) = 0"
    by (simp add: toInt32_def)
  then have b: "reward 901943132160000 210000 = Inr 5000000000" by (simp add: reward_def)
  show ?thesis using a b by simp
qed
section \<open>Non-contextual block verification: results\<close>

lemma verify_txs_Cons_None:
  assumes "verify_txs i s (t # ts) = None"
  shows "\<not> (i > 0 \<and> tx_isCoinbase t) \<and> verify_txs (i + 1) (s + tx_getLegacySigops t) ts = None"
proof (cases "i > 0 \<and> tx_isCoinbase t")
  case True
  with assms show ?thesis by simp
next
  case False
  show ?thesis
  proof (cases "tx_isSane t")
    case (Some r)
    with assms False show ?thesis by simp
  next
    case None
    show ?thesis
    proof (cases "(s + tx_getLegacySigops t) * WITNESS_SCALE_FACTOR > MAX_SIGOPS_WEIGHT")
      case True
      with assms False None show ?thesis by simp
    next
      case big: False
      with assms False None show ?thesis by simp
    qed
  qed
qed

lemma verify_txs_no_coinbase:
  "verify_txs i s ts = None \<Longrightarrow> j < length ts \<Longrightarrow> 0 < i + j \<Longrightarrow> \<not> tx_isCoinbase (ts ! j)"
proof (induction ts arbitrary: i s j)
  case Nil
  then show ?case by simp
next
  case (Cons t ts)
  from verify_txs_Cons_None[OF Cons.prems(1)]
  have h: "\<not> (i > 0 \<and> tx_isCoinbase t)"
    and tl: "verify_txs (i + 1) (s + tx_getLegacySigops t) ts = None"
    by simp_all
  show ?case
  proof (cases j)
    case 0
    with Cons.prems(3) h show ?thesis by simp
  next
    case (Suc k)
    with Cons.prems(2) have kl: "k < length ts" by simp
    have "\<not> tx_isCoinbase (ts ! k)" by (rule Cons.IH[OF tl kl]) simp
    with Suc show ?thesis by simp
  qed
qed

lemma toHex_empty_iff: "toHex r = [] \<longleftrightarrow> r = []"
  by (cases r) (simp_all add: toHex_def)

lemma Block_verify_reached:
  assumes "reaches_merkle B"
  shows "Block_verify gmr B =
           (case gmr (map tx_hash (txs B)) of
              None \<Rightarrow> Reject ''bad-txns-duplicate'' 100
            | Some root \<Rightarrow>
                if root = [] then Reject ''bad-txns-duplicate'' 100
                else if merkleRoot B \<noteq> toHex root then Reject ''bad-txnmrklroot'' 100
                else Accept)"
proof -
  from assms have vh: "verifyHeaders B = None"
    and sz: "\<not> (length (txs B) > MAX_SIZE \<or> getBaseSize B > MAX_SIZE)"
    and cb: "\<not> (length (txs B) = 0 \<or> \<not> tx_isCoinbase (txs B ! 0))"
    and vt: "verify_txs 0 0 (txs B) = None"
    by (simp_all add: reaches_merkle_def)
  show ?thesis
  proof (cases "gmr (map tx_hash (txs B))")
    case None
    then show ?thesis using sz cb by (simp add: Block_verify_def vh vt getMerkleRoot_def)
  next
    case (Some root)
    then show ?thesis using sz cb
      by (simp add: Block_verify_def vh vt getMerkleRoot_def toHex_empty_iff)
  qed
qed

lemma Block_verify_Accept_reaches:
  assumes "Block_verify gmr B = Accept"
  shows "reaches_merkle B"
proof -
  have vh: "verifyHeaders B = None"
  proof (cases "verifyHeaders B")
    case None
    then show ?thesis .
  next
    case (Some p)
    then have "Block_verify gmr B = Reject (fst p) (snd p)"
      by (simp add: Block_verify_def split: prod.splits)
    with assms show ?thesis by simp
  qed
  have sz: "\<not> (length (txs B) > MAX_SIZE \<or> getBaseSize B > MAX_SIZE)"
  proof
    assume "length (txs B) > MAX_SIZE \<or> getBaseSize B > MAX_SIZE"
    then have "Block_verify gmr B = Reject ''bad-blk-length'' 100"
      by (simp add: Block_verify_def vh)
    with assms show False by simp
  qed
  have cb: "\<not> (length (txs B) = 0 \<or> \<not> tx_isCoinbase (txs B ! 0))"
  proof
    assume "length (txs B) = 0 \<or> \<not> tx_isCoinbase (txs B ! 0)"
    then have "Block_verify gmr B = Reject ''bad-cb-missing'' 100"
      using sz by (simp add: Block_verify_def vh)
    with assms show False by simp
  qed
  have vt: "verify_txs 0 0 (txs B) = None"
  proof (cases "verify_txs 0 0 (txs B)")
    case None
    then show ?thesis .
  next
    case (Some p)
    then have "Block_verify gmr B = Reject (fst p) (snd p)"
      using sz cb by (simp add: Block_verify_def vh split: prod.splits)
    with assms show ?thesis by simp
  qed
  show ?thesis using vh sz cb vt by (simp add: reaches_merkle_def)
qed

lemma Block_verify_Accept_root:
  assumes "Block_verify gmr B = Accept"
  shows "\<exists>root. gmr (map tx_hash (txs B)) = Some root \<and> toHex root = merkleRoot B"
proof -
  have r: "reaches_merkle B" using assms by (rule Block_verify_Accept_reaches)
  show ?thesis
  proof (cases "gmr (map tx_hash (txs B))")
    case None
    then have "Block_verify gmr B = Reject ''bad-txns-duplicate'' 100"
      by (simp add: Block_verify_reached[OF r])
    with assms show ?thesis by simp
  next
    case (Some root)
    have "toHex root = merkleRoot B"
    proof (rule ccontr)
      assume "toHex root \<noteq> merkleRoot B"
      then have "Block_verify gmr B \<noteq> Accept"
        using Some by (simp add: Block_verify_reached[OF r])
      with assms show False by simp
    qed
    with Some show ?thesis by simp
  qed
qed


text \<open>
  C1. Whenever \<open>_verify\<close> returns true, the Merkle root computed from the transaction
  hashes in block order is present and, in hex, equals the header's \<open>merkleRoot\<close>; the
  first transaction is a coinbase and no transaction at an index \<open>i > 0\<close> is one.
  Whenever the Merkle-root computation returns nothing, \<open>_verify\<close> does not return true,
  and, the computation being reached (the earlier checks pass, \<open>reaches_merkle\<close>), it
  returns false with reason \<open>bad-txns-duplicate\<close> and score 100. A root that is present
  (a digest, hence a non-empty buffer) and differs from the header's makes \<open>_verify\<close>
  return false with reason \<open>bad-txnmrklroot\<close> and score 100.
\<close>

theorem C1_block_verify:
  "(Block_verify gmr B = Accept \<longrightarrow>
      (\<exists>root. gmr (map tx_hash (txs B)) = Some root \<and> toHex root = merkleRoot B)
      \<and> txs B \<noteq> [] \<and> tx_isCoinbase (txs B ! 0)
      \<and> (\<forall>i. 0 < i \<and> i < length (txs B) \<longrightarrow> \<not> tx_isCoinbase (txs B ! i)))
   \<and> (gmr (map tx_hash (txs B)) = None \<longrightarrow>
        Block_verify gmr B \<noteq> Accept
        \<and> (reaches_merkle B \<longrightarrow> Block_verify gmr B = Reject ''bad-txns-duplicate'' 100))
   \<and> (\<forall>root. reaches_merkle B \<and> gmr (map tx_hash (txs B)) = Some root \<and> root \<noteq> []
        \<and> toHex root \<noteq> merkleRoot B \<longrightarrow>
        Block_verify gmr B = Reject ''bad-txnmrklroot'' 100)"
proof (intro conjI impI allI)
  assume acc: "Block_verify gmr B = Accept"
  then have r: "reaches_merkle B" by (rule Block_verify_Accept_reaches)
  show "\<exists>root. gmr (map tx_hash (txs B)) = Some root \<and> toHex root = merkleRoot B"
    using acc by (rule Block_verify_Accept_root)
  show "txs B \<noteq> []" using r by (simp add: reaches_merkle_def)
  show "tx_isCoinbase (txs B ! 0)" using r by (simp add: reaches_merkle_def)
  fix i assume i: "0 < i \<and> i < length (txs B)"
  have vt: "verify_txs 0 0 (txs B) = None" using r by (simp add: reaches_merkle_def)
  from i have il: "i < length (txs B)" and ip: "0 < 0 + i" by simp_all
  show "\<not> tx_isCoinbase (txs B ! i)" using vt il ip by (rule verify_txs_no_coinbase)
next
  assume n: "gmr (map tx_hash (txs B)) = None"
  show "Block_verify gmr B \<noteq> Accept"
  proof
    assume "Block_verify gmr B = Accept"
    then have "\<exists>root. gmr (map tx_hash (txs B)) = Some root \<and> toHex root = merkleRoot B"
      by (rule Block_verify_Accept_root)
    with n show False by simp
  qed
next
  assume "gmr (map tx_hash (txs B)) = None" and r: "reaches_merkle B"
  then show "Block_verify gmr B = Reject ''bad-txns-duplicate'' 100"
    by (simp add: Block_verify_reached[OF r])
next
  fix root
  assume h: "reaches_merkle B \<and> gmr (map tx_hash (txs B)) = Some root \<and> root \<noteq> []
          \<and> toHex root \<noteq> merkleRoot B"
  then have r: "reaches_merkle B" by simp
  from h have "merkleRoot B \<noteq> toHex root" by auto
  with h show "Block_verify gmr B = Reject ''bad-txnmrklroot'' 100"
    by (simp add: Block_verify_reached[OF r])
qed

theorem C1_block_verify_witness:
  "Block_verify (\<lambda>leaves. case leaves of [h] \<Rightarrow> Some h | _ \<Rightarrow> None)
      \<lparr>verifyHeaders = None,
       txs = [\<lparr>tx_isCoinbase = True, tx_isSane = None, tx_getLegacySigops = 1,
               tx_hash = [0xab]\<rparr>],
       getBaseSize = 200, merkleRoot = ''ab''\<rparr> = Accept
   \<and> toHex [0xab] = ''ab''
   \<and> reaches_merkle
      \<lparr>verifyHeaders = None,
       txs = [\<lparr>tx_isCoinbase = True, tx_isSane = None, tx_getLegacySigops = 1,
               tx_hash = [0xab]\<rparr>,
              \<lparr>tx_isCoinbase = False, tx_isSane = None, tx_getLegacySigops = 2,
               tx_hash = [0xcd]\<rparr>,
              \<lparr>tx_isCoinbase = False, tx_isSane = None, tx_getLegacySigops = 2,
               tx_hash = [0xcd]\<rparr>],
       getBaseSize = 600, merkleRoot = ''ab''\<rparr>
   \<and> Block_verify (\<lambda>leaves. case leaves of [h] \<Rightarrow> Some h | _ \<Rightarrow> None)
      \<lparr>verifyHeaders = None,
       txs = [\<lparr>tx_isCoinbase = True, tx_isSane = None, tx_getLegacySigops = 1,
               tx_hash = [0xab]\<rparr>,
              \<lparr>tx_isCoinbase = False, tx_isSane = None, tx_getLegacySigops = 2,
               tx_hash = [0xcd]\<rparr>,
              \<lparr>tx_isCoinbase = False, tx_isSane = None, tx_getLegacySigops = 2,
               tx_hash = [0xcd]\<rparr>],
       getBaseSize = 600, merkleRoot = ''ab''\<rparr> = Reject ''bad-txns-duplicate'' 100
   \<and> reaches_merkle
      \<lparr>verifyHeaders = None,
       txs = [\<lparr>tx_isCoinbase = True, tx_isSane = None, tx_getLegacySigops = 1,
               tx_hash = [0xab]\<rparr>],
       getBaseSize = 200, merkleRoot = ''ff''\<rparr>
   \<and> Block_verify (\<lambda>leaves. case leaves of [h] \<Rightarrow> Some h | _ \<Rightarrow> None)
      \<lparr>verifyHeaders = None,
       txs = [\<lparr>tx_isCoinbase = True, tx_isSane = None, tx_getLegacySigops = 1,
               tx_hash = [0xab]\<rparr>],
       getBaseSize = 200, merkleRoot = ''ff''\<rparr> = Reject ''bad-txnmrklroot'' 100"
proof -
  let ?g = "\<lambda>leaves :: byte list list. case leaves of [h] \<Rightarrow> Some h | _ \<Rightarrow> None"
  let ?cb = "\<lparr>tx_isCoinbase = True, tx_isSane = None, tx_getLegacySigops = 1, tx_hash = [0xab]\<rparr>"
  let ?t = "\<lparr>tx_isCoinbase = False, tx_isSane = None, tx_getLegacySigops = 2, tx_hash = [0xcd]\<rparr>"
  let ?B1 = "\<lparr>verifyHeaders = None, txs = [?cb], getBaseSize = 200, merkleRoot = ''ab''\<rparr>"
  let ?B2 = "\<lparr>verifyHeaders = None, txs = [?cb, ?t, ?t], getBaseSize = 600, merkleRoot = ''ab''\<rparr>"
  let ?B3 = "\<lparr>verifyHeaders = None, txs = [?cb], getBaseSize = 200, merkleRoot = ''ff''\<rparr>"
  have hx: "toHex [0xab] = ''ab''" by (simp add: toHex_def hex_digit_def)
  have r1: "reaches_merkle ?B1" "reaches_merkle ?B2" "reaches_merkle ?B3"
    by (simp_all add: reaches_merkle_def MAX_SIZE_def WITNESS_SCALE_FACTOR_def MAX_SIGOPS_WEIGHT_def)
  have a: "Block_verify ?g ?B1 = Accept"
    unfolding Block_verify_reached[OF r1(1)] using hx by simp
  have n2: "?g (map tx_hash (txs ?B2)) = None" by simp
  have "?g (map tx_hash (txs ?B2)) = None \<longrightarrow>
        Block_verify ?g ?B2 \<noteq> Accept
        \<and> (reaches_merkle ?B2 \<longrightarrow> Block_verify ?g ?B2 = Reject ''bad-txns-duplicate'' 100)"
    by (rule C1_block_verify[of ?g ?B2, THEN conjunct2, THEN conjunct1])
  then have b: "Block_verify ?g ?B2 = Reject ''bad-txns-duplicate'' 100"
    using n2 r1(2) by (simp only: simp_thms)
  have "\<forall>root. reaches_merkle ?B3 \<and> ?g (map tx_hash (txs ?B3)) = Some root \<and> root \<noteq> []
        \<and> toHex root \<noteq> merkleRoot ?B3 \<longrightarrow>
        Block_verify ?g ?B3 = Reject ''bad-txnmrklroot'' 100"
    by (rule C1_block_verify[of ?g ?B3, THEN conjunct2, THEN conjunct2])
  then have "reaches_merkle ?B3 \<and> ?g (map tx_hash (txs ?B3)) = Some [0xab] \<and> [0xab :: byte] \<noteq> []
        \<and> toHex [0xab] \<noteq> merkleRoot ?B3 \<longrightarrow>
        Block_verify ?g ?B3 = Reject ''bad-txnmrklroot'' 100"
    by (rule spec)
  moreover have "?g (map tx_hash (txs ?B3)) = Some [0xab]" "[0xab :: byte] \<noteq> []"
    "toHex [0xab] \<noteq> merkleRoot ?B3"
    by (simp_all add: hx)
  ultimately have c: "Block_verify ?g ?B3 = Reject ''bad-txnmrklroot'' 100"
    using r1(3) by (simp only: simp_thms)
  show ?thesis by (intro conjI a b c hx r1)
qed

section \<open>Script numbers: results\<close>

text \<open>The value of a little-endian array of numbers.\<close>

fun le_val :: "nat list \<Rightarrow> nat" where
  "le_val [] = 0"
| "le_val (x # xs) = x + 256 * le_val xs"

lemma toArray_nonempty: "bn_toArray_le n \<noteq> []"
  by (subst bn_toArray_le.simps) simp

lemma toArray_bytes: "x \<in> set (bn_toArray_le n) \<Longrightarrow> x < 256"
proof (induction n arbitrary: x rule: bn_toArray_le.induct)
  case (1 n)
  show ?case
  proof (cases "n < 256")
    case True
    with "1.prems" show ?thesis by (subst (asm) bn_toArray_le.simps) simp
  next
    case False
    from "1.prems" have "x = n mod 256 \<or> x \<in> set (bn_toArray_le (n div 256))"
      using False by (subst (asm) bn_toArray_le.simps) simp
    then show ?thesis using "1.IH"[OF False] by auto
  qed
qed

lemma toArray_val: "le_val (bn_toArray_le n) = n"
proof (induction n rule: bn_toArray_le.induct)
  case (1 n)
  show ?case
  proof (cases "n < 256")
    case True
    then show ?thesis by (subst bn_toArray_le.simps) simp
  next
    case False
    have "le_val (bn_toArray_le n) = n mod 256 + 256 * le_val (bn_toArray_le (n div 256))"
      using False by (subst bn_toArray_le.simps) simp
    then show ?thesis using "1.IH"[OF False] by simp
  qed
qed

lemma toArray_last: "0 < n \<Longrightarrow> 0 < last (bn_toArray_le n)"
proof (induction n rule: bn_toArray_le.induct)
  case (1 n)
  show ?case
  proof (cases "n < 256")
    case True
    with "1.prems" show ?thesis by (subst bn_toArray_le.simps) simp
  next
    case False
    then have "0 < n div 256" by simp
    then have "0 < last (bn_toArray_le (n div 256))" using "1.IH"[OF False] by simp
    moreover have "last (bn_toArray_le n) = last (bn_toArray_le (n div 256))"
      using False toArray_nonempty[of "n div 256"] by (subst bn_toArray_le.simps) simp
    ultimately show ?thesis by simp
  qed
qed

lemma le_val_snoc: "le_val (ys @ [t]) = le_val ys + t * 256 ^ length ys"
  by (induction ys) (simp_all add: algebra_simps)

lemma le_val_bound: "(\<And>x. x \<in> set ys \<Longrightarrow> x < 256) \<Longrightarrow> le_val ys < 256 ^ length ys"
proof (induction ys)
  case Nil
  then show ?case by simp
next
  case (Cons y ys)
  have "y < 256" using Cons.prems by simp
  moreover have "le_val ys < 256 ^ length ys" using Cons by simp
  then have "le_val ys + 1 \<le> 256 ^ length ys" by simp
  then have "256 * (le_val ys + 1) \<le> 256 * 256 ^ length ys" by (rule mult_le_mono2)
  ultimately show ?case by simp
qed

lemma from_le_of_nat:
  "(\<And>x. x \<in> set xs \<Longrightarrow> x < 256) \<Longrightarrow> bn_from_le (map of_nat xs) = le_val xs"
proof (induction xs)
  case Nil
  then show ?case by simp
next
  case (Cons x xs)
  have "x < 256" using Cons.prems by simp
  then have "unat (of_nat x :: byte) = x" by (simp add: unat_of_nat)
  then show ?case using Cons by simp
qed


lemma nat7: "k < 256 \<Longrightarrow> (k AND 0x80 \<noteq> 0) = (128 \<le> (k::nat))"
proof -
  assume k: "k < 256"
  have "(k AND 2 ^ 7 = 0) = (\<not> bit k 7)" by (rule and_exp_eq_0_iff_not_bit)
  moreover have "bit k 7 = (128 \<le> k)"
  proof -
    have "k div 128 < 2" using k by simp
    then have "odd (k div 128) = (k div 128 = 1)" by (cases "k div 128 = 0") auto
    also have "\<dots> = (128 \<le> k)" using k by auto
    finally show ?thesis by (simp add: bit_iff_odd)
  qed
  ultimately show ?thesis by simp
qed

lemma nat7_zero: "k < 256 \<Longrightarrow> ((k::nat) AND 0x80 = 0) = (k < 128)"
  using nat7[of k] by auto

lemma nat7_pos: "k < 256 \<Longrightarrow> (0 < (k::nat) AND 0x80) = (128 \<le> k)"
  using nat7[of k] by auto

lemma nat7f: "(k::nat) AND 0x7f = k mod 128"
  using take_bit_eq_mask[of 7 k] by (simp add: take_bit_eq_mod mask_eq_exp_minus_1)

lemma nator: "k < 128 \<Longrightarrow> (k::nat) OR 0x80 = k + 128"
proof -
  assume "k < 128"
  then have "\<not> bit k 7" by (simp add: bit_iff_odd)
  then have "set_bit 7 k = k + 128" by (simp add: set_bit_eq)
  then show ?thesis by (simp add: set_bit_eq_or)
qed

lemma clear_top:
  assumes "a < 256 ^ n" "128 \<le> t" "t < 256"
  shows "unset_bit (Suc n * 8 - 1) (int (a + t * 256 ^ n)) = int (a + (t - 128) * 256 ^ n)"
proof -
  define r where "r = a + t * 256 ^ n"
  have p: "(2::nat) ^ (Suc n * 8 - 1) = 128 * 256 ^ n"
  proof -
    have "Suc n * 8 - 1 = 7 + 8 * n" by simp
    then have "(2::nat) ^ (Suc n * 8 - 1) = 2 ^ 7 * (2 ^ 8) ^ n"
      by (simp only: power_add power_mult)
    then show ?thesis by simp
  qed
  have lo: "128 * 256 ^ n \<le> r" using assms(2) by (simp add: r_def trans_le_add2)
  have "t * 256 ^ n \<le> 255 * 256 ^ n" using assms(3) by simp
  moreover have "(255::nat) * 256 ^ n + 256 ^ n = 2 * (128 * 256 ^ n)" by simp
  ultimately have hi: "r < 2 * (128 * 256 ^ n)" using assms(1) unfolding r_def by linarith
  have "r div (128 * 256 ^ n) = 1"
    using lo hi by (intro div_nat_eqI) simp_all
  then have "bit r (Suc n * 8 - 1)" unfolding bit_iff_odd p by simp
  then have "bit (int r) (Suc n * 8 - 1)" by (simp add: bit_of_nat_iff_bit)
  then have "unset_bit (Suc n * 8 - 1) (int r) = int r - 2 ^ (Suc n * 8 - 1)"
    by (simp add: unset_bit_eq)
  also have "\<dots> = int r - int (128 * 256 ^ n)" using p by (metis of_nat_numeral of_nat_power)
  also have "\<dots> = int (r - 128 * 256 ^ n)" using lo by simp
  also have "r - 128 * 256 ^ n = a + (t - 128) * 256 ^ n"
    using assms(2) by (simp add: r_def diff_mult_distrib)
  finally show ?thesis by (simp add: r_def)
qed


lemma num_snoc:
  assumes bytes: "\<And>x. x \<in> set ys \<Longrightarrow> x < 256" and t: "t < 256"
    and len: "length ys < 4"
    and ok: "t mod 128 \<noteq> 0 \<or> (ys \<noteq> [] \<and> 128 \<le> last ys)"
  shows "Script_num (map of_nat (ys @ [t])) flags 4 =
           Inr (if 128 \<le> t then - int (le_val ys + (t - 128) * 256 ^ length ys)
                else int (le_val ys + t * 256 ^ length ys))"
proof -
  define v :: "byte list" where "v = map of_nat (ys @ [t])"
  have lv: "length v = Suc (length ys)" by (simp add: v_def)
  have top: "unat (v ! (length v - 1)) = t"
    using t by (simp add: v_def nth_append unat_of_nat)
  have snd: "ys \<noteq> [] \<Longrightarrow> unat (v ! (length v - 2)) = last ys"
  proof -
    assume ne: "ys \<noteq> []"
    then have "last ys < 256" using bytes by simp
    moreover have "v ! (length v - 2) = of_nat (last ys)"
      using ne by (simp add: v_def nth_append last_conv_nth)
    ultimately show ?thesis by (simp add: unat_of_nat)
  qed
  have "bn_from_le (map of_nat (ys @ [t])) = le_val (ys @ [t])"
    by (rule from_le_of_nat) (use bytes t in auto)
  then have dec: "bn_from_le v = le_val ys + t * 256 ^ length ys"
    unfolding v_def by (simp only: le_val_snoc)
  have minimal: "\<not> (unat (v ! (length v - 1)) AND 0x7f = 0
                  \<and> (length v = 1 \<or> unat (v ! (length v - 2)) AND 0x80 = 0))"
  proof (cases "t mod 128 = 0")
    case False
    then show ?thesis using top by (simp add: nat7f)
  next
    case True
    with ok have ne: "ys \<noteq> []" and big: "128 \<le> last ys" by auto
    have "last ys < 256" using ne bytes by simp
    then have "last ys AND 0x80 \<noteq> 0" using big by (simp add: nat7_pos)
    then show ?thesis using ne snd[OF ne] lv by simp
  qed
  have bound: "le_val ys < 256 ^ length ys" using bytes by (rule le_val_bound)
  show ?thesis
  proof (cases "128 \<le> t")
    case True
    have "unset_bit (length v * 8 - 1) (int (bn_from_le v))
            = int (le_val ys + (t - 128) * 256 ^ length ys)"
      unfolding dec lv using bound True t by (rule clear_top)
    moreover have "unat (v ! (length v - 1)) AND 0x80 \<noteq> 0"
      using True t top by (simp add: nat7_pos)
    ultimately show ?thesis
      using minimal len True lv unfolding Script_num_def v_def[symmetric]
      by (simp add: Let_def)
  next
    case False
    have "\<not> unat (v ! (length v - 1)) AND 0x80 \<noteq> 0"
      using False t top by (simp add: nat7_zero)
    then show ?thesis
      using minimal len False lv dec unfolding Script_num_def v_def[symmetric]
      by (simp add: Let_def)
  qed
qed


lemma pow256_less: "(256::nat) ^ k < 256 ^ j \<Longrightarrow> k < j"
  by (simp add: power_strict_increasing_iff)

text \<open>
  C6. For every integer \<open>n\<close> with \<open>- 2 ^ 31 + 1 \<le> n \<le> 2 ^ 31 - 1\<close> and every flag set
  (in particular with \<open>VERIFY_MINIMALDATA\<close> set, so that the minimal-encoding check of
  \<open>Script.num\<close> is performed and passed), \<open>Script.num(Script.array(n))\<close> under the
  4-byte limit returns \<open>n\<close>; and zero encodes as the empty vector.
\<close>

theorem C6_num_array_roundtrip:
  assumes lo: "- (2 ^ 31) + 1 \<le> n" and hi: "n \<le> 2 ^ 31 - 1"
  shows "Script_num (Script_array n) flags 4 = Inr n \<and> Script_array 0 = []"
proof -
  have zero: "Script_array 0 = []" by (simp add: Script_array_def)
  have "Script_num (Script_array n) flags 4 = Inr n"
  proof (cases "n = 0")
    case True
    then show ?thesis by (simp add: zero Script_num_def)
  next
    case nz: False
    define m where "m = nat \<bar>n\<bar>"
    define xs where "xs = bn_toArray_le m"
    define ys where "ys = butlast xs"
    define l where "l = last xs"
    define k where "k = length ys"
    have m0: "0 < m" using nz by (simp add: m_def)
    have m31: "m < 128 * 256 ^ 3" using lo hi by (simp add: m_def)
    have xne: "xs \<noteq> []" by (simp add: xs_def toArray_nonempty)
    have xs: "xs = ys @ [l]" using xne by (simp add: ys_def l_def)
    have bx: "\<And>x. x \<in> set xs \<Longrightarrow> x < 256" unfolding xs_def by (rule toArray_bytes)
    have bys: "\<And>x. x \<in> set ys \<Longrightarrow> x < 256" using bx xs by simp
    have l256: "l < 256" using bx xs by simp
    have l0: "0 < l" unfolding l_def xs_def using m0 by (rule toArray_last)
    have val: "le_val xs = m" by (simp add: xs_def toArray_val)
    have val': "le_val ys + l * 256 ^ k = m" using val by (simp add: xs le_val_snoc k_def)
    have topx: "xs ! (length xs - 1) = l" by (simp add: xs)
    have lenx: "length xs = Suc k" by (simp add: xs k_def)
    have arr0: "Script_array n = map of_nat
          (if xs ! (length xs - 1) AND 0x80 \<noteq> 0
           then xs @ [if n < 0 then 0x80 else 0]
           else if n < 0 then xs[length xs - 1 := xs ! (length xs - 1) OR 0x80]
           else xs)"
      unfolding xs_def m_def using nz by (simp add: Script_array_def Let_def)
    show ?thesis
    proof (cases "128 \<le> l")
      case True
      define s :: nat where "s = (if n < 0 then 0x80 else 0)"
      have arr: "Script_array n = map of_nat (xs @ [s])"
        unfolding arr0 topx using True l256 by (simp add: s_def nat7_pos)
      have "128 * 256 ^ k \<le> l * 256 ^ k" using True by simp
      then have "128 * (256::nat) ^ k < 128 * 256 ^ 3" using val' m31 by linarith
      then have "(256::nat) ^ k < 256 ^ 3" by simp
      then have "k < 3" by (rule pow256_less)
      then have len: "length xs < 4" by (simp add: lenx)
      have "Script_num (map of_nat (xs @ [s])) flags 4 =
              Inr (if 128 \<le> s then - int (le_val xs + (s - 128) * 256 ^ length xs)
                   else int (le_val xs + s * 256 ^ length xs))"
      proof (rule num_snoc)
        show "\<And>x. x \<in> set xs \<Longrightarrow> x < 256" by (rule bx)
        show "s < 256" by (simp add: s_def)
        show "length xs < 4" by (rule len)
        show "s mod 128 \<noteq> 0 \<or> xs \<noteq> [] \<and> 128 \<le> last xs"
          using True xne by (simp add: l_def)
      qed
      then show ?thesis using val nz by (simp add: arr s_def m_def)
    next
      case False
      then have l128: "l < 128" by simp
      have "256 ^ k \<le> l * 256 ^ k" using l0 by simp
      moreover have "(128::nat) * 256 ^ 3 < 256 ^ 4" by simp
      ultimately have "(256::nat) ^ k < 256 ^ 4" using val' m31 by linarith
      then have len: "length ys < 4" unfolding k_def by (rule pow256_less)
      show ?thesis
      proof (cases "n < 0")
        case True
        have "xs[length xs - 1 := l OR 0x80] = ys @ [l + 128]"
          using l128 by (simp add: xs nator)
        then have arr: "Script_array n = map of_nat (ys @ [l + 128])"
          unfolding arr0 topx using True l128 l256 by (simp add: nat7_zero)
        have "Script_num (map of_nat (ys @ [l + 128])) flags 4 =
                Inr (if 128 \<le> l + 128 then - int (le_val ys + (l + 128 - 128) * 256 ^ length ys)
                     else int (le_val ys + (l + 128) * 256 ^ length ys))"
        proof (rule num_snoc)
          show "\<And>x. x \<in> set ys \<Longrightarrow> x < 256" by (rule bys)
          show "l + 128 < 256" using l128 by simp
          show "length ys < 4" by (rule len)
          show "(l + 128) mod 128 \<noteq> 0 \<or> ys \<noteq> [] \<and> 128 \<le> last ys"
            using l0 l128 by simp
        qed
        then show ?thesis using val' True by (simp add: arr k_def[symmetric] m_def)
      next
        case pos: False
        have arr: "Script_array n = map of_nat (ys @ [l])"
          unfolding arr0 topx using pos l128 l256 by (simp add: nat7_zero xs)
        have "Script_num (map of_nat (ys @ [l])) flags 4 =
                Inr (if 128 \<le> l then - int (le_val ys + (l - 128) * 256 ^ length ys)
                     else int (le_val ys + l * 256 ^ length ys))"
        proof (rule num_snoc)
          show "\<And>x. x \<in> set ys \<Longrightarrow> x < 256" by (rule bys)
          show "l < 256" by (rule l256)
          show "length ys < 4" by (rule len)
          show "l mod 128 \<noteq> 0 \<or> ys \<noteq> [] \<and> 128 \<le> last ys"
            using l0 l128 by simp
        qed
        then show ?thesis using val' pos l128 by (simp add: arr k_def[symmetric] m_def)
      qed
    qed
  qed
  with zero show ?thesis by simp
qed

theorem C6_num_array_roundtrip_witness:
  "- (2 ^ 31) + 1 \<le> (- 1000 :: int) \<and> (- 1000 :: int) \<le> 2 ^ 31 - 1
   \<and> Script_num (Script_array (- 1000)) VERIFY_MINIMALDATA 4 = Inr (- 1000)"
  using C6_num_array_roundtrip [of "- 1000" VERIFY_MINIMALDATA] by simp

section \<open>Script serializer: results\<close>

lemma byte_of_nat: "n mod 256 = unat (a::byte) \<Longrightarrow> (of_nat n :: byte) = a"
proof -
  assume h: "n mod 256 = unat a"
  have "unat (word_of_nat n :: byte) = n mod 2 ^ LENGTH(8)" by (rule unat_of_nat)
  then have "unat (word_of_nat n :: byte) = unat a" using h by simp
  then show "(word_of_nat n :: byte) = a" by (simp only: word_unat_eq_iff)
qed

lemma unat_byte_lt: "unat (a::byte) < 256"
  using unsigned_less[of a, where 'a = nat] by simp

lemma writeU8_readU8: "p \<noteq> [] \<Longrightarrow> writeU8 (int (readU8 p)) = take 1 p"
  by (cases p) (simp_all add: writeU8_def readU8_def)

lemma writeU16_readU16: "2 \<le> length p \<Longrightarrow> writeU16 (readU16 p) = take 2 p"
proof -
  assume "2 \<le> length p"
  then obtain a b r where p: "p = a # b # r"
    by (cases p; cases "tl p") auto
  have "(unat a + 256 * unat b) mod 256 = unat a" using unat_byte_lt[of a] by simp
  then have 1: "of_nat (unat a + 256 * unat b) = a" by (rule byte_of_nat)
  have "((unat a + 256 * unat b) div 256) mod 256 = unat b"
    using unat_byte_lt[of a] unat_byte_lt[of b] by simp
  then have 2: "of_nat ((unat a + 256 * unat b) div 256) = b" by (rule byte_of_nat)
  show ?thesis unfolding p writeU16_def readU16_def using 1 2
    by (simp del: of_nat_add of_nat_mult)
qed

lemma writeU32_readU32: "4 \<le> length p \<Longrightarrow> writeU32 (readU32 p) = take 4 p"
proof -
  assume "4 \<le> length p"
  then obtain a b c d r where p: "p = a # b # c # d # r"
    by (cases p; cases "tl p"; cases "tl (tl p)"; cases "tl (tl (tl p))") auto
  define n3 where "n3 = unat d"
  define n2 where "n2 = unat c + 256 * n3"
  define n1 where "n1 = unat b + 256 * n2"
  define n where "n = unat a + 256 * n1"
  note bnd = unat_byte_lt[of a] unat_byte_lt[of b] unat_byte_lt[of c] unat_byte_lt[of d]
  have d1: "n div 256 = n1" using bnd by (simp add: n_def)
  have d2: "n1 div 256 = n2" using bnd by (simp add: n1_def)
  have d3: "n2 div 256 = n3" using bnd by (simp add: n2_def)
  have "n mod 256 = unat a" using bnd by (simp add: n_def)
  then have 1: "of_nat n = a" by (rule byte_of_nat)
  have "n1 mod 256 = unat b" using bnd by (simp add: n1_def)
  then have 2: "of_nat n1 = b" by (rule byte_of_nat)
  have "n2 mod 256 = unat c" using bnd by (simp add: n2_def)
  then have 3: "of_nat n2 = c" by (rule byte_of_nat)
  have "n3 mod 256 = unat d" using bnd by (simp add: n3_def)
  then have 4: "of_nat n3 = d" by (rule byte_of_nat)
  have "readU32 p = n" by (simp add: p readU32_def n_def n1_def n2_def n3_def)
  then show ?thesis unfolding writeU32_def by (simp add: d1 d2 d3 1 2 3 4 p)
qed

lemma encode_Cons_Inr:
  "encode_op op = Inr bs \<Longrightarrow> encode ops = Inr rest \<Longrightarrow> encode (op # ops) = Inr (bs @ rest)"
  by simp

lemma uint_byte_eq: "uint (b::byte) = k \<Longrightarrow> b = word_of_int k"
  by auto

lemma encode_op_direct:
  assumes "0x01 \<le> uint b" "uint b \<le> 0x4b" "length d = unat b"
  shows "encode_op (Opcode (uint b) (Some d)) = Inr (b # d)"
  using assms by (simp add: encode_op_def writeU8_def)

lemma encode_op_pushdata1:
  assumes "uint b = OP_PUSHDATA1" "length d = readU8 p" "1 \<le> length p"
  shows "encode_op (Opcode (uint b) (Some d)) = Inr (b # take 1 p @ d)"
proof -
  have "p \<noteq> []" using assms(3) by auto
  then have "writeU8 (int (length d)) = take 1 p"
    unfolding assms(2) by (rule writeU8_readU8)
  moreover have "writeU8 (uint b) = [b]" by (simp add: writeU8_def)
  ultimately show ?thesis using assms(1) by (simp add: encode_op_def)
qed

lemma encode_op_pushdata2:
  assumes "uint b = OP_PUSHDATA2" "length d = readU16 p" "2 \<le> length p"
  shows "encode_op (Opcode (uint b) (Some d)) = Inr (b # take 2 p @ d)"
proof -
  have "writeU16 (length d) = take 2 p"
    unfolding assms(2) using assms(3) by (rule writeU16_readU16)
  moreover have "writeU8 (uint b) = [b]" by (simp add: writeU8_def)
  ultimately show ?thesis using assms(1) by (simp add: encode_op_def)
qed

lemma encode_op_pushdata4:
  assumes "uint b = OP_PUSHDATA4" "length d = readU32 p" "4 \<le> length p"
  shows "encode_op (Opcode (uint b) (Some d)) = Inr (b # take 4 p @ d)"
proof -
  have "writeU32 (length d) = take 4 p"
    unfolding assms(2) using assms(3) by (rule writeU32_readU32)
  moreover have "writeU8 (uint b) = [b]" by (simp add: writeU8_def)
  ultimately show ?thesis using assms(1) by (simp add: encode_op_def)
qed

lemma take_drop_glue: "take k p @ take n (drop k p) @ drop n (drop k p) = p"
  by (metis append_take_drop_id)

lemma decode_no_error_roundtrip:
  "(\<forall>op \<in> set (decode b). op_value op \<noteq> - 1) \<Longrightarrow> encode (decode b) = Inr b"
proof (induction b rule: decode.induct)
  case 1
  then show ?case by simp
next
  case (2 b p)
  consider (direct) "0x01 \<le> uint b \<and> uint b \<le> 0x4b"
    | (pd1) "uint b = OP_PUSHDATA1" | (pd2) "uint b = OP_PUSHDATA2" | (pd4) "uint b = OP_PUSHDATA4"
    | (plain) "\<not> (0x01 \<le> uint b \<and> uint b \<le> 0x4b)" "uint b \<noteq> OP_PUSHDATA1"
        "uint b \<noteq> OP_PUSHDATA2" "uint b \<noteq> OP_PUSHDATA4"
    by blast
  then show ?case
  proof cases
    case direct
    show ?thesis
    proof (cases "length p < unat b")
      case True
      with direct have pe: "decode (b # p) = [Opcode (- 1) None]" by simp
      show ?thesis using "2.prems" unfolding pe by simp
    next
      case False
      let ?d = "take (unat b) p"
      have dec: "decode (b # p) = Opcode (uint b) (Some ?d) # decode (drop (unat b) p)"
        using direct False by simp
      have "length ?d = unat b" using False by simp
      with direct have "encode_op (Opcode (uint b) (Some ?d)) = Inr (b # ?d)"
        by (intro encode_op_direct) auto
      moreover have "encode (decode (drop (unat b) p)) = Inr (drop (unat b) p)"
        using "2.IH"(1)[OF direct False] "2.prems" dec by simp
      ultimately show ?thesis unfolding dec by (simp only: encode_Cons_Inr) simp
    qed
  next
    case pd1
    then have nd: "\<not> (0x01 \<le> uint b \<and> uint b \<le> 0x4b)" by simp
    show ?thesis
    proof (cases "length p < 1 \<or> length (drop 1 p) < readU8 p")
      case True
      with pd1 have pe: "decode (b # p) = [Opcode (- 1) None]" by auto
      show ?thesis using "2.prems" unfolding pe by simp
    next
      case False
      then have l1: "\<not> length p < 1" and l2: "\<not> length (drop 1 p) < readU8 p" by auto
      let ?d = "take (readU8 p) (drop 1 p)"
      let ?r = "drop (readU8 p) (drop 1 p)"
      have dec: "decode (b # p) = Opcode (uint b) (Some ?d) # decode ?r"
        using pd1 l1 l2 by simp
      have lp: "1 \<le> length p" using l1 by linarith
      have "length ?d = readU8 p" using l2 by simp
      then have "encode_op (Opcode (uint b) (Some ?d)) = Inr (b # take 1 p @ ?d)"
        using lp by (rule encode_op_pushdata1[OF pd1])
      moreover have "encode (decode ?r) = Inr ?r"
        using "2.IH"(2)[OF nd pd1 l1 l2] "2.prems" dec by simp
      ultimately have "encode (decode (b # p)) = Inr ((b # take 1 p @ ?d) @ ?r)"
        unfolding dec by (rule encode_Cons_Inr)
      then show ?thesis by (simp only: append_Cons append_assoc take_drop_glue)
    qed
  next
    case pd2
    then have nd: "\<not> (0x01 \<le> uint b \<and> uint b \<le> 0x4b)" and n1: "uint b \<noteq> OP_PUSHDATA1"
      by simp_all
    show ?thesis
    proof (cases "length p < 2 \<or> length (drop 2 p) < readU16 p")
      case True
      with pd2 have pe: "decode (b # p) = [Opcode (- 1) None]" by auto
      show ?thesis using "2.prems" unfolding pe by simp
    next
      case False
      then have l1: "\<not> length p < 2" and l2: "\<not> length (drop 2 p) < readU16 p" by auto
      let ?d = "take (readU16 p) (drop 2 p)"
      let ?r = "drop (readU16 p) (drop 2 p)"
      have dec: "decode (b # p) = Opcode (uint b) (Some ?d) # decode ?r"
        using pd2 l1 l2 by simp
      have lp: "2 \<le> length p" using l1 by linarith
      have "length ?d = readU16 p" using l2 by simp
      then have "encode_op (Opcode (uint b) (Some ?d)) = Inr (b # take 2 p @ ?d)"
        using lp by (rule encode_op_pushdata2[OF pd2])
      moreover have "encode (decode ?r) = Inr ?r"
        using "2.IH"(3)[OF nd n1 pd2 l1 l2] "2.prems" dec by simp
      ultimately have "encode (decode (b # p)) = Inr ((b # take 2 p @ ?d) @ ?r)"
        unfolding dec by (rule encode_Cons_Inr)
      then show ?thesis by (simp only: append_Cons append_assoc take_drop_glue)
    qed
  next
    case pd4
    then have nd: "\<not> (0x01 \<le> uint b \<and> uint b \<le> 0x4b)" and n1: "uint b \<noteq> OP_PUSHDATA1"
      and n2: "uint b \<noteq> OP_PUSHDATA2"
      by simp_all
    show ?thesis
    proof (cases "length p < 4 \<or> length (drop 4 p) < readU32 p")
      case True
      with pd4 have pe: "decode (b # p) = [Opcode (- 1) None]" by auto
      show ?thesis using "2.prems" unfolding pe by simp
    next
      case False
      then have l1: "\<not> length p < 4" and l2: "\<not> length (drop 4 p) < readU32 p" by auto
      let ?d = "take (readU32 p) (drop 4 p)"
      let ?r = "drop (readU32 p) (drop 4 p)"
      have dec: "decode (b # p) = Opcode (uint b) (Some ?d) # decode ?r"
        using pd4 l1 l2 by simp
      have lp: "4 \<le> length p" using l1 by linarith
      have "length ?d = readU32 p" using l2 by simp
      then have "encode_op (Opcode (uint b) (Some ?d)) = Inr (b # take 4 p @ ?d)"
        using lp by (rule encode_op_pushdata4[OF pd4])
      moreover have "encode (decode ?r) = Inr ?r"
        using "2.IH"(4)[OF nd n1 n2 pd4 l1 l2] "2.prems" dec by simp
      ultimately have "encode (decode (b # p)) = Inr ((b # take 4 p @ ?d) @ ?r)"
        unfolding dec by (rule encode_Cons_Inr)
      then show ?thesis by (simp only: append_Cons append_assoc take_drop_glue)
    qed
  next
    case plain
    then have dec: "decode (b # p) = Opcode (uint b) None # decode p" by simp
    have "0 \<le> uint b" by simp
    then have "uint b \<noteq> - 1" by linarith
    then have "encode_op (Opcode (uint b) None) = Inr [b]"
      by (simp add: encode_op_def writeU8_def)
    moreover have "encode (decode p) = Inr p"
      using "2.IH"(5) plain "2.prems" dec by simp
    ultimately show ?thesis unfolding dec by (simp only: encode_Cons_Inr) simp
  qed
qed

lemma encode_parse_error:
  "\<exists>op \<in> set ops. op_value op = - 1 \<Longrightarrow> \<exists>e. encode ops = Inl e"
proof (induction ops)
  case Nil
  then show ?case by simp
next
  case (Cons op ops)
  show ?case
  proof (cases "encode_op op")
    case (Inl e)
    then show ?thesis by simp
  next
    case (Inr bs)
    then have "op_value op \<noteq> - 1" by (auto simp: encode_op_def split: if_splits)
    with Cons.prems have "\<exists>op \<in> set ops. op_value op = - 1" by simp
    then obtain e where "encode ops = Inl e" using Cons.IH by blast
    with Inr show ?thesis by simp
  qed
qed

text \<open>
  C5. For every byte string \<open>b\<close> whose decoding contains no parse-error opcode (value
  \<open>-1\<close>), \<open>Script.encode(Script.decode(b))\<close> reproduces \<open>b\<close> byte for byte, and hence
  decoding the re-encoded bytes gives \<open>Script.decode(b)\<close> again; and \<open>Script.encode\<close>
  throws on every code list that contains a parse-error opcode, so that re-encoding is
  not available for the remaining byte strings.
\<close>

theorem C5_decode_encode_roundtrip:
  "((\<forall>op \<in> set (decode b). op_value op \<noteq> - 1) \<longrightarrow>
      encode (decode b) = Inr b \<and> map_sum id decode (encode (decode b)) = Inr (decode b))
   \<and> ((\<exists>op \<in> set ops. op_value op = - 1) \<longrightarrow> (\<exists>e. encode ops = Inl e))"
  using decode_no_error_roundtrip[of b] encode_parse_error[of ops] by simp

theorem C5_decode_encode_roundtrip_witness:
  "decode [0x76, 0x02, 0xab, 0xcd, 0x4c, 0x01, 0x07, 0x87]
     = [Opcode 0x76 None, Opcode 0x02 (Some [0xab, 0xcd]), Opcode 0x4c (Some [0x07]),
        Opcode 0x87 None]
   \<and> encode (decode [0x76, 0x02, 0xab, 0xcd, 0x4c, 0x01, 0x07, 0x87])
       = Inr [0x76, 0x02, 0xab, 0xcd, 0x4c, 0x01, 0x07, 0x87]
   \<and> decode [0x02, 0xab] = [Opcode (- 1) None]
   \<and> (\<exists>e. encode (decode [0x02, 0xab]) = Inl e)"
  using C5_decode_encode_roundtrip
    [of "[0x76, 0x02, 0xab, 0xcd, 0x4c, 0x01, 0x07, 0x87]" "decode [0x02, 0xab]"]
  by (simp add: readU8_def)

section \<open>The script interpreter: results\<close>

lemma is_disabled_gt: "is_disabled v \<Longrightarrow> v > OP_16 \<and> v \<noteq> - 1"
  by (auto simp: is_disabled_def)

lemma exec_op_disabled:
  assumes "is_disabled v"
  shows "exec_op E this flags tx index version ip (Opcode v None) st =
           (if opCount st + 1 > MAX_OPS then SErr ''OP_COUNT'' else SErr ''DISABLED_OPCODE'')"
  using assms is_disabled_gt[OF assms] by (simp add: exec_op_def Let_def)

lemma exec_loop_append:
  "exec_loop E this flags tx index version ip (xs @ ys) st =
     (case exec_loop E this flags tx index version ip xs st of
        Inl e \<Rightarrow> Inl e
      | Inr st' \<Rightarrow> exec_loop E this flags tx index version (ip + length xs) ys st')"
proof (induction xs arbitrary: ip st)
  case Nil
  then show ?case by simp
next
  case (Cons x xs)
  show ?case
  proof (cases "exec_op E this flags tx index version ip x st")
    case (Inl e)
    then show ?thesis by simp
  next
    case (Inr st1)
    then show ?thesis using Cons.IH[of "ip + 1" st1] by (simp add: ac_simps split: sum.splits)
  qed
qed

lemma exec_loop_disabled_fails:
  assumes "is_disabled v" "Opcode v None \<in> set cs"
  shows "\<exists>e. exec_loop E this flags tx index version ip cs st = Inl e"
  using assms(2)
proof (induction cs arbitrary: ip st)
  case Nil
  then show ?case by simp
next
  case (Cons c cs)
  show ?case
  proof (cases "exec_op E this flags tx index version ip c st")
    case (Inl e)
    then show ?thesis by simp
  next
    case (Inr st1)
    have "c \<noteq> Opcode v None"
    proof
      assume "c = Opcode v None"
      then have "exec_op E this flags tx index version ip c st =
           (if opCount st + 1 > MAX_OPS then SErr ''OP_COUNT'' else SErr ''DISABLED_OPCODE'')"
        using exec_op_disabled[OF assms(1)] by simp
      with Inr show False by (simp split: if_splits)
    qed
    with Cons.prems have "Opcode v None \<in> set cs" by simp
    then obtain e where "exec_loop E this flags tx index version (ip + 1) cs st1 = Inl e"
      using Cons.IH by blast
    with Inr show ?thesis by simp
  qed
qed

lemma execute_disabled_fails:
  assumes "is_disabled v" "Opcode v None \<in> set (code this)"
  shows "\<exists>e. execute E this s flags tx index version = Inl e"
proof -
  obtain e where "exec_loop E this flags tx index version 0 (code this) (init_state s) = Inl e"
    using exec_loop_disabled_fails[OF assms] by blast
  then show ?thesis by (simp add: execute_def)
qed

lemma execute_reaches_disabled:
  assumes "is_disabled v" "code this = pre @ Opcode v None # post"
    and "length (raw this) \<le> MAX_SCRIPT_SIZE"
    and "exec_loop E this flags tx index version 0 pre (init_state s) = Inr st"
    and "opCount st < MAX_OPS"
  shows "execute E this s flags tx index version = SErr ''DISABLED_OPCODE''"
proof -
  have "exec_op E this flags tx index version (0 + length pre) (Opcode v None) st
          = SErr ''DISABLED_OPCODE''"
    using exec_op_disabled[OF assms(1)] assms(5) by simp
  then have "exec_loop E this flags tx index version 0 (pre @ Opcode v None # post) (init_state s)
          = SErr ''DISABLED_OPCODE''"
    by (simp add: exec_loop_append assms(4))
  then show ?thesis using assms(2,3) by (simp add: execute_def)
qed

lemma dead_branch_scenario:
  "execute E (Script_fromRaw [0x00, 0x63, 0x7e, 0x68]) [] flags tx index version
     = SErr ''DISABLED_OPCODE''"
proof -
  let ?S = "Script_fromRaw [0x00, 0x63, 0x7e, 0x68]"
  have c: "code ?S = [Opcode OP_0 None, Opcode OP_IF None] @ Opcode OP_CAT None # [Opcode OP_ENDIF None]"
    by (simp add: Script_fromRaw_def)
  have r: "length (raw ?S) \<le> MAX_SCRIPT_SIZE"
    by (simp add: Script_fromRaw_def MAX_SCRIPT_SIZE_def)
  have s1: "\<And>ip. exec_op E ?S flags tx index version ip (Opcode OP_0 None) (init_state [])
      = Inr ((init_state [])\<lparr>stack := [[]]\<rparr>)"
    by (simp add: exec_op_def exec_switch_def init_state_def is_disabled_def push_def STACK_FALSE_def)
  have s2: "\<And>ip. exec_op E ?S flags tx index version ip (Opcode OP_IF None) ((init_state [])\<lparr>stack := [[]]\<rparr>)
      = Inr ((init_state [])\<lparr>stack := [], state := [False], negate := 1, opCount := 1\<rparr>)"
    by (simp add: exec_op_def exec_conditional_def init_state_def is_disabled_def pop_def top_def
          MAX_OPS_def Let_def)
  have l: "exec_loop E ?S flags tx index version 0 [Opcode OP_0 None, Opcode OP_IF None] (init_state [])
      = Inr ((init_state [])\<lparr>stack := [], state := [False], negate := 1, opCount := 1\<rparr>)"
    by (simp add: s1 s2)
  have d: "is_disabled OP_CAT" by (simp add: is_disabled_def)
  show ?thesis
    by (rule execute_reaches_disabled[OF d c r l]) (simp add: init_state_def MAX_OPS_def)
qed


lemma decode_replicate_OP_1:
  "decode (replicate n 0x51 @ rest) = replicate n (Opcode OP_1 None) @ decode rest"
  by (induction n) simp_all

lemma exec_op_OP_1:
  assumes "negate st = 0"
  shows "exec_op E this flags tx index version ip (Opcode OP_1 None) st
           = Inr (st\<lparr>stack := stack st @ [[1]]\<rparr>)"
  using assms by (simp add: exec_op_def exec_switch_def is_disabled_def push_def)

lemma exec_loop_replicate_OP_1:
  "negate st = 0 \<Longrightarrow>
   exec_loop E this flags tx index version ip (replicate n (Opcode OP_1 None)) st
     = Inr (st\<lparr>stack := stack st @ replicate n [1]\<rparr>)"
proof (induction n arbitrary: st ip)
  case 0
  then show ?case by simp
next
  case (Suc n)
  let ?st1 = "st\<lparr>stack := stack st @ [[1]]\<rparr>"
  have "negate ?st1 = 0" using Suc.prems by simp
  then have "exec_loop E this flags tx index version (ip + 1) (replicate n (Opcode OP_1 None)) ?st1
     = Inr (?st1\<lparr>stack := stack ?st1 @ replicate n [1]\<rparr>)"
    by (rule Suc.IH)
  then show ?case using exec_op_OP_1[OF Suc.prems] by (simp add: replicate_app_Cons_same)
qed

lemma exec_op_OP_DROP:
  assumes "negate st = 0" "opCount st + 1 \<le> MAX_OPS" "stack st \<noteq> []"
  shows "exec_op E this flags tx index version ip (Opcode OP_DROP None) st
           = Inr (st\<lparr>opCount := opCount st + 1, stack := butlast (stack st)\<rparr>)"
  using assms by (simp add: exec_op_def exec_switch_def is_disabled_def pop_def Let_def)

lemma execute_finish:
  assumes "length (raw this) \<le> MAX_SCRIPT_SIZE"
    and "exec_loop E this flags tx index version 0 (code this) (init_state s) = Inr st"
  shows "execute E this s flags tx index version =
           (if length (stack st) + length (alt st) > MAX_STACK then SErr ''STACK_SIZE''
            else if length (state st) \<noteq> 0 then SErr ''UNBALANCED_CONDITIONAL''
            else Inr (stack st))"
  using assms by (simp add: execute_def)

lemma execute_Inr_loop:
  assumes "execute E this s flags tx index version = Inr s'"
  shows "\<exists>st. exec_loop E this flags tx index version 0 (code this) (init_state s) = Inr st
              \<and> s' = stack st \<and> length (stack st) + length (alt st) \<le> MAX_STACK
              \<and> state st = []"
proof (cases "exec_loop E this flags tx index version 0 (code this) (init_state s)")
  case (Inl e)
  with assms show ?thesis by (simp add: execute_def split: if_splits)
next
  case (Inr st)
  with assms show ?thesis by (simp add: execute_def split: if_splits)
qed

text \<open>
  C3 (as amended). A script whose code contains a disabled opcode (\<open>is_disabled\<close>: CAT,
  SUBSTR, LEFT, RIGHT, INVERT, AND, OR, XOR, 2MUL, 2DIV, MUL, DIV, MOD, LSHIFT, RSHIFT)
  never executes successfully; and when the loop reaches that opcode without an earlier
  failure and with the operation count below its limit, \<open>execute\<close> fails with
  \<open>DISABLED_OPCODE\<close> whether or not the branch is being executed (the state \<open>st\<close> reached
  is arbitrary, in particular its \<open>negate\<close>). In particular \<open>OP_0 OP_IF OP_CAT OP_ENDIF\<close>
  fails with \<open>DISABLED_OPCODE\<close>.
\<close>

theorem C3_disabled_opcode:
  "(is_disabled v \<and> Opcode v None \<in> set (code this) \<longrightarrow>
      (\<exists>e. execute E this s flags tx index version = Inl e))
   \<and> (is_disabled v \<and> code this = pre @ Opcode v None # post
        \<and> length (raw this) \<le> MAX_SCRIPT_SIZE
        \<and> exec_loop E this flags tx index version 0 pre (init_state s) = Inr st
        \<and> opCount st < MAX_OPS \<longrightarrow>
        execute E this s flags tx index version = SErr ''DISABLED_OPCODE'')
   \<and> execute E (Script_fromRaw [0x00, 0x63, 0x7e, 0x68]) [] flags tx index version
       = SErr ''DISABLED_OPCODE''"
proof (intro conjI impI)
  assume "is_disabled v \<and> Opcode v None \<in> set (code this)"
  then have "is_disabled v" and "Opcode v None \<in> set (code this)" by simp_all
  then show "\<exists>e. execute E this s flags tx index version = Inl e"
    by (rule execute_disabled_fails)
next
  assume h: "is_disabled v \<and> code this = pre @ Opcode v None # post
        \<and> length (raw this) \<le> MAX_SCRIPT_SIZE
        \<and> exec_loop E this flags tx index version 0 pre (init_state s) = Inr st
        \<and> opCount st < MAX_OPS"
  show "execute E this s flags tx index version = SErr ''DISABLED_OPCODE''"
    by (rule execute_reaches_disabled[of v this pre post E flags tx index version s st])
       (use h in simp_all)
next
  show "execute E (Script_fromRaw [0x00, 0x63, 0x7e, 0x68]) [] flags tx index version
       = SErr ''DISABLED_OPCODE''"
    by (rule dead_branch_scenario)
qed

theorem C3_disabled_opcode_witness:
  "is_disabled OP_CAT
   \<and> Opcode OP_CAT None \<in> set (code (Script_fromRaw [0x00, 0x63, 0x7e, 0x68]))
   \<and> (\<exists>e. execute toy_env (Script_fromRaw [0x00, 0x63, 0x7e, 0x68]) [] 0 None 0 0 = Inl e)
   \<and> execute toy_env (Script_fromRaw [0x00, 0x63, 0x7e, 0x68]) [] 0 None 0 0
       = SErr ''DISABLED_OPCODE''"
proof -
  have d: "is_disabled OP_CAT" by (simp add: is_disabled_def)
  have m: "Opcode OP_CAT None \<in> set (code (Script_fromRaw [0x00, 0x63, 0x7e, 0x68]))"
    by (simp add: Script_fromRaw_def)
  note t = C3_disabled_opcode[of OP_CAT "Script_fromRaw [0x00, 0x63, 0x7e, 0x68]" toy_env "[]" 0
      None 0 0]
  have "\<exists>e. execute toy_env (Script_fromRaw [0x00, 0x63, 0x7e, 0x68]) [] 0 None 0 0 = Inl e"
    using t[THEN conjunct1] d m by simp
  moreover have "execute toy_env (Script_fromRaw [0x00, 0x63, 0x7e, 0x68]) [] 0 None 0 0
       = SErr ''DISABLED_OPCODE''"
    by (rule t[THEN conjunct2, THEN conjunct2])
  ultimately show ?thesis using d m by simp
qed

text \<open>
  The claim as written promises \<open>DISABLED_OPCODE\<close> for every script that contains a
  disabled opcode. \<open>OP_RETURN OP_CAT\<close> contains one and fails with \<open>OP_RETURN\<close>: the loop
  stops at the first failure.
\<close>

theorem C3_disabled_opcode_counterexample:
  "is_disabled OP_CAT
   \<and> Opcode OP_CAT None \<in> set (code (Script_fromRaw [0x6a, 0x7e]))
   \<and> execute toy_env (Script_fromRaw [0x6a, 0x7e]) [] 0 None 0 0 = SErr ''OP_RETURN''"
proof -
  have c: "code (Script_fromRaw [0x6a, 0x7e]) = [Opcode OP_RETURN None, Opcode OP_CAT None]"
    by (simp add: Script_fromRaw_def)
  have "exec_op toy_env (Script_fromRaw [0x6a, 0x7e]) 0 None 0 0 0 (Opcode OP_RETURN None)
          (init_state []) = SErr ''OP_RETURN''"
    by (simp add: exec_op_def exec_switch_def is_disabled_def init_state_def MAX_OPS_def Let_def)
  then have "execute toy_env (Script_fromRaw [0x6a, 0x7e]) [] 0 None 0 0 = SErr ''OP_RETURN''"
    unfolding execute_def c by (simp add: Script_fromRaw_def MAX_SCRIPT_SIZE_def)
  then show ?thesis by (simp add: c is_disabled_def)
qed

lemma butlast_replicate_1001: "butlast (replicate 1001 x) = replicate 1000 x"
proof -
  have "replicate (1000 + 1) x = replicate 1000 x @ replicate 1 x" by (rule replicate_add)
  then have "replicate 1001 x = replicate 1000 x @ [x]" by simp
  then show ?thesis by (simp only: butlast_snoc)
qed

text \<open>
  C4. The specification bounds the combined size of the stack and the alt stack by 1000
  at every point of \<open>execute\<close>, an execution that exceeds the bound failing with
  \<open>STACK_SIZE\<close>. The code compares the size with \<open>MAX_STACK\<close> once, after the loop
  (line 1227). On the script of 1001 times \<open>OP_1\<close> followed by \<open>OP_DROP\<close> the stack holds
  1001 elements after the first 1001 iterations, no error is raised, and \<open>execute\<close>
  returns true with the 1000 elements that are left: the bound is exceeded during the
  execution.
\<close>

theorem C4_stack_bound_exceeded:
  "(case state_after toy_env (Script_fromRaw (replicate 1001 0x51 @ [0x75])) [] 0 None 0 0 1001 of
      Inl e \<Rightarrow> False
    | Inr st \<Rightarrow> length (stack st) + length (alt st) = 1001)
   \<and> execute toy_env (Script_fromRaw (replicate 1001 0x51 @ [0x75])) [] 0 None 0 0
       = Inr (replicate 1000 [1])"
proof -
  let ?S = "Script_fromRaw (replicate 1001 0x51 @ [0x75])"
  let ?st = "(init_state [])\<lparr>stack := replicate 1001 [1]\<rparr>"
  have c: "code ?S = replicate 1001 (Opcode OP_1 None) @ [Opcode OP_DROP None]"
    unfolding Script_fromRaw_def by (simp add: decode_replicate_OP_1)
  have r: "length (raw ?S) \<le> MAX_SCRIPT_SIZE"
    by (simp add: Script_fromRaw_def MAX_SCRIPT_SIZE_def)
  have l: "\<And>ip. exec_loop toy_env ?S 0 None 0 0 ip (replicate 1001 (Opcode OP_1 None)) (init_state [])
      = Inr ?st"
    using exec_loop_replicate_OP_1[of "init_state []" toy_env ?S 0 None 0 0 _ 1001]
    by (simp add: init_state_def)
  have a: "state_after toy_env ?S [] 0 None 0 0 1001 = Inr ?st"
    unfolding state_after_def c by (simp add: l)
  have d: "\<And>ip. exec_op toy_env ?S 0 None 0 0 ip (Opcode OP_DROP None) ?st
      = Inr (?st\<lparr>opCount := opCount ?st + 1, stack := butlast (stack ?st)\<rparr>)"
    by (rule exec_op_OP_DROP) (simp_all add: init_state_def MAX_OPS_def)
  have f: "exec_loop toy_env ?S 0 None 0 0 0 (code ?S) (init_state [])
      = Inr (?st\<lparr>opCount := opCount ?st + 1, stack := butlast (stack ?st)\<rparr>)"
    unfolding c exec_loop_append l by (simp add: d)
  have e: "execute toy_env ?S [] 0 None 0 0 = Inr (replicate 1000 [1])"
    unfolding execute_finish[OF r f]
    by (simp add: butlast_replicate_1001 init_state_def MAX_STACK_def)
  show ?thesis unfolding a using e by (simp add: init_state_def)
qed


lemma isScripthash_not_isProgram: "isScripthash s \<Longrightarrow> \<not> isProgram s"
  by (simp add: isScripthash_def isProgram_def)

lemma verify_p2sh_not_pushonly_fails:
  assumes p2sh: "has_flag flags VERIFY_P2SH" and sh: "isScripthash output"
    and np: "\<not> isPushOnly input"
  shows "\<exists>e. Script_verify E vp input wit output tx i flags = Inl e"
proof (cases "execute E input [] flags tx i 0")
  case (Inl e)
  then show ?thesis by (simp add: Script_verify_def)
next
  case inp: (Inr copy)
  show ?thesis
  proof (cases "execute E output copy flags tx i 0")
    case (Inl e)
    with inp show ?thesis by (simp add: Script_verify_def)
  next
    case out: (Inr s1)
    show ?thesis
      using inp out p2sh sh np isScripthash_not_isProgram[OF sh]
      by (simp add: Script_verify_def)
  qed
qed

lemma verify_p2sh_not_pushonly_reached:
  assumes p2sh: "has_flag flags VERIFY_P2SH" and sh: "isScripthash output"
    and np: "\<not> isPushOnly input"
    and inp: "execute E input [] flags tx i 0 = Inr copy"
    and out: "execute E output copy flags tx i 0 = Inr s1"
    and t: "s1 \<noteq> []" "Script_bool (top s1 1)"
  shows "Script_verify E vp input wit output tx i flags = SErr ''SIG_PUSHONLY''"
  using inp out p2sh sh np t isScripthash_not_isProgram[OF sh]
  by (simp add: Script_verify_def)

text \<open>
  C10 (as amended). With \<open>VERIFY_P2SH\<close> set, a pay-to-scripthash output script and an
  input script that contains a non-push opcode, \<open>Script.verify\<close> never returns true,
  whether or not \<open>VERIFY_SIGPUSHONLY\<close> is set; and it throws \<open>SIG_PUSHONLY\<close> whenever the
  input and output scripts execute without failure and leave a true value on top, that
  is whenever the P2SH stage is reached. The push-only check of that stage precedes the
  execution of the redeem script.
\<close>

theorem C10_p2sh_pushonly:
  "has_flag flags VERIFY_P2SH \<and> isScripthash output \<and> \<not> isPushOnly input \<longrightarrow>
     (\<exists>e. Script_verify E vp input wit output tx i flags = Inl e)
     \<and> (\<forall>copy s1. execute E input [] flags tx i 0 = Inr copy
            \<and> execute E output copy flags tx i 0 = Inr s1
            \<and> s1 \<noteq> [] \<and> Script_bool (top s1 1) \<longrightarrow>
          Script_verify E vp input wit output tx i flags = SErr ''SIG_PUSHONLY'')"
proof (intro impI conjI allI)
  assume h: "has_flag flags VERIFY_P2SH \<and> isScripthash output \<and> \<not> isPushOnly input"
  then have a: "has_flag flags VERIFY_P2SH" and b: "isScripthash output"
    and c: "\<not> isPushOnly input" by simp_all
  show "\<exists>e. Script_verify E vp input wit output tx i flags = Inl e"
    using a b c by (rule verify_p2sh_not_pushonly_fails)
  fix copy s1
  assume r: "execute E input [] flags tx i 0 = Inr copy
            \<and> execute E output copy flags tx i 0 = Inr s1
            \<and> s1 \<noteq> [] \<and> Script_bool (top s1 1)"
  show "Script_verify E vp input wit output tx i flags = SErr ''SIG_PUSHONLY''"
    by (rule verify_p2sh_not_pushonly_reached[OF a b c, of E tx i copy s1]) (use r in simp_all)
qed

lemmas flag_simps = has_flag_def VERIFY_P2SH_def VERIFY_STRICTENC_def VERIFY_DERSIG_def
  VERIFY_LOW_S_def VERIFY_NULLDUMMY_def VERIFY_SIGPUSHONLY_def VERIFY_MINIMALDATA_def
  VERIFY_DISCOURAGE_UPGRADABLE_NOPS_def VERIFY_CLEANSTACK_def VERIFY_CHECKLOCKTIMEVERIFY_def
  VERIFY_CHECKSEQUENCEVERIFY_def VERIFY_WITNESS_def
  VERIFY_DISCOURAGE_UPGRADABLE_WITNESS_PROGRAM_def VERIFY_MINIMALIF_def VERIFY_NULLFAIL_def
  VERIFY_WITNESS_PUBKEYTYPE_def VERIFY_MAST_def

lemmas exec_simps = execute_def exec_op_def exec_switch_def is_disabled_def init_state_def
  push_def pop_def top_def MAX_OPS_def MAX_PUSH_def MAX_STACK_def MAX_SCRIPT_SIZE_def
  Script_fromRaw_def Script_isMinimal_def invalid_stack_def STACK_TRUE_def STACK_FALSE_def
  Let_def

text \<open>
  The claim as written promises \<open>SIG_PUSHONLY\<close> for every such input script. The input
  script \<open>OP_RETURN\<close> is not push-only and \<open>Script.verify\<close> fails with \<open>OP_RETURN\<close>: the
  input script is executed before the P2SH stage.
\<close>

theorem C10_p2sh_pushonly_counterexample:
  "has_flag VERIFY_P2SH VERIFY_P2SH
   \<and> isScripthash (Script_fromRaw [0xa9, 0x14, 7, 0, 0, 0, 0, 0, 0, 0, 0, 0, 0, 0, 0, 0, 0, 0, 0,
                                    0, 0, 0, 0x87])
   \<and> \<not> isPushOnly (Script_fromRaw [0x6a])
   \<and> Script_verify toy_env toy_verifyProgram (Script_fromRaw [0x6a]) \<lparr>items = []\<rparr>
        (Script_fromRaw [0xa9, 0x14, 7, 0, 0, 0, 0, 0, 0, 0, 0, 0, 0, 0, 0, 0, 0, 0, 0,
                         0, 0, 0, 0x87]) None 0 VERIFY_P2SH = SErr ''OP_RETURN''"
proof -
  have f: "has_flag VERIFY_P2SH VERIFY_P2SH" "\<not> has_flag VERIFY_P2SH VERIFY_SIGPUSHONLY"
    by (simp_all add: flag_simps)
  have s: "isScripthash (Script_fromRaw [0xa9, 0x14, 7, 0, 0, 0, 0, 0, 0, 0, 0, 0, 0, 0, 0, 0, 0,
      0, 0, 0, 0, 0, 0x87])"
    by (simp add: isScripthash_def Script_fromRaw_def)
  have p: "\<not> isPushOnly (Script_fromRaw [0x6a])"
    by (simp add: isPushOnly_def Script_fromRaw_def)
  have e: "execute toy_env (Script_fromRaw [0x6a]) [] VERIFY_P2SH None 0 0 = SErr ''OP_RETURN''"
    by (simp add: exec_simps)
  have "Script_verify toy_env toy_verifyProgram (Script_fromRaw [0x6a]) \<lparr>items = []\<rparr>
        (Script_fromRaw [0xa9, 0x14, 7, 0, 0, 0, 0, 0, 0, 0, 0, 0, 0, 0, 0, 0, 0, 0, 0,
                         0, 0, 0, 0x87]) None 0 VERIFY_P2SH = SErr ''OP_RETURN''"
    unfolding Script_verify_def using f(2) e by simp
  then show ?thesis using f(1) s p by simp
qed

theorem C10_p2sh_pushonly_witness:
  "has_flag VERIFY_P2SH VERIFY_P2SH
   \<and> isScripthash (Script_fromRaw [0xa9, 0x14, 7, 0, 0, 0, 0, 0, 0, 0, 0, 0, 0, 0, 0, 0, 0, 0, 0,
                                    0, 0, 0, 0x87])
   \<and> \<not> isPushOnly (Script_fromRaw [0x01, 0x07, 0x61])
   \<and> execute toy_env (Script_fromRaw [0x01, 0x07, 0x61]) [] VERIFY_P2SH None 0 0 = Inr [[7]]
   \<and> execute toy_env (Script_fromRaw [0xa9, 0x14, 7, 0, 0, 0, 0, 0, 0, 0, 0, 0, 0, 0, 0, 0, 0,
                                        0, 0, 0, 0, 0, 0x87]) [[7]] VERIFY_P2SH None 0 0
       = Inr [[1]]
   \<and> Script_verify toy_env toy_verifyProgram (Script_fromRaw [0x01, 0x07, 0x61]) \<lparr>items = []\<rparr>
        (Script_fromRaw [0xa9, 0x14, 7, 0, 0, 0, 0, 0, 0, 0, 0, 0, 0, 0, 0, 0, 0, 0, 0,
                         0, 0, 0, 0x87]) None 0 VERIFY_P2SH = SErr ''SIG_PUSHONLY''"
proof -
  let ?out = "Script_fromRaw [0xa9, 0x14, 7, 0, 0, 0, 0, 0, 0, 0, 0, 0, 0, 0, 0, 0, 0, 0, 0,
                              0, 0, 0, 0x87]"
  let ?in = "Script_fromRaw [0x01, 0x07, 0x61]"
  have f: "has_flag VERIFY_P2SH VERIFY_P2SH" by (simp add: flag_simps)
  have m: "\<not> has_flag VERIFY_P2SH VERIFY_MINIMALDATA" by (simp add: flag_simps)
  have s: "isScripthash ?out" by (simp add: isScripthash_def Script_fromRaw_def)
  have p: "\<not> isPushOnly ?in" by (simp add: isPushOnly_def Script_fromRaw_def)
  have e1: "execute toy_env ?in [] VERIFY_P2SH None 0 0 = Inr [[7]]"
    using m by (simp add: execute_def exec_op_def exec_switch_def is_disabled_def init_state_def
        push_def MAX_OPS_def MAX_PUSH_def MAX_STACK_def MAX_SCRIPT_SIZE_def Script_fromRaw_def
        Script_isMinimal_def Let_def)
  have d: "hash160 toy_env [7] = [7, 0, 0, 0, 0, 0, 0, 0, 0, 0, 0, 0, 0, 0, 0, 0, 0, 0, 0, 0]"
    by (simp add: toy_env_def toy_digest_def eval_nat_numeral)
  have e2: "execute toy_env ?out [[7]] VERIFY_P2SH None 0 0 = Inr [[1]]"
    using m d by (simp add: execute_def exec_op_def exec_switch_def is_disabled_def init_state_def
        push_def pop_def top_def MAX_OPS_def MAX_PUSH_def MAX_STACK_def MAX_SCRIPT_SIZE_def
        Script_fromRaw_def Script_isMinimal_def STACK_TRUE_def Let_def)
  have t: "[[1 :: byte]] \<noteq> []" "Script_bool (top [[1]] 1)" by (simp_all add: top_def)
  have "Script_verify toy_env toy_verifyProgram ?in \<lparr>items = []\<rparr> ?out None 0 VERIFY_P2SH
          = SErr ''SIG_PUSHONLY''"
    using C10_p2sh_pushonly[of VERIFY_P2SH ?out ?in toy_env toy_verifyProgram "\<lparr>items = []\<rparr>"
        None 0] f s p e1 e2 t
    by simp
  then show ?thesis using f s p e1 e2 by simp
qed


lemma unat_of_len: "n \<le> 75 \<Longrightarrow> unat (of_nat n :: byte) = n"
  by (simp add: unat_of_nat take_bit_nat_eq_self)

lemma uint_of_len: "n \<le> 75 \<Longrightarrow> uint (of_nat n :: byte) = int n"
  using arg_cong[OF unat_of_len, of n int] by simp

lemma decode_push:
  assumes "1 \<le> length d" "length d \<le> 75"
  shows "decode (of_nat (length d) # d @ rest)
           = Opcode (int (length d)) (Some d) # decode rest"
  using assms by (simp add: unat_of_len uint_of_len)

lemma fromPush_toRaw_direct:
  "length d \<le> 75 \<Longrightarrow> fromPush_toRaw d = of_nat (length d) # d"
  by (simp add: fromPush_toRaw_def writeU8_def)

lemma p2pkh_input_code:
  assumes "2 \<le> length pubkey" "length pubkey \<le> 75"
    and "sig = [] \<or> (2 \<le> length sig \<and> length sig \<le> 75)"
  shows "code (p2pkh_input sig pubkey)
           = [if sig = [] then Opcode OP_0 None else Opcode (int (length sig)) (Some sig),
              Opcode (int (length pubkey)) (Some pubkey)]"
proof -
  have pk: "decode (fromPush_toRaw pubkey) = [Opcode (int (length pubkey)) (Some pubkey)]"
    using decode_push[of pubkey "[]"] assms(1,2) by (simp add: fromPush_toRaw_direct)
  show ?thesis
  proof (cases "sig = []")
    case True
    then show ?thesis using pk
      by (simp add: p2pkh_input_def Script_fromRaw_def fromPush_toRaw_def writeU8_def)
  next
    case False
    then have l: "1 \<le> length sig" "length sig \<le> 75" using assms(3) by auto
    show ?thesis using False pk decode_push[OF l, of "fromPush_toRaw pubkey"] l
      by (simp add: p2pkh_input_def Script_fromRaw_def fromPush_toRaw_direct)
  qed
qed

lemma isMinimal_direct:
  "2 \<le> length d \<Longrightarrow> length d \<le> 75 \<Longrightarrow> Script_isMinimal d (int (length d)) flags"
  by (simp add: Script_isMinimal_def)

lemma p2pkh_input_raw_length:
  assumes "length pubkey \<le> 75" "length sig \<le> 75"
  shows "length (raw (p2pkh_input sig pubkey)) \<le> 152"
  using assms by (simp add: p2pkh_input_def Script_fromRaw_def fromPush_toRaw_direct)

lemma p2pkh_input_execute:
  assumes "2 \<le> length pubkey" "length pubkey \<le> 75"
    and "sig = [] \<or> (2 \<le> length sig \<and> length sig \<le> 75)"
  shows "execute E (p2pkh_input sig pubkey) [] flags tx i 0 = Inr [sig, pubkey]"
proof -
  have l: "length sig \<le> 75" using assms(3) by auto
  have r: "\<not> length (raw (p2pkh_input sig pubkey)) > MAX_SCRIPT_SIZE"
    using p2pkh_input_raw_length[OF assms(2) l] by (simp add: MAX_SCRIPT_SIZE_def)
  have m: "Script_isMinimal pubkey (int (length pubkey)) flags"
    using assms(1,2) by (rule isMinimal_direct)
  show ?thesis
  proof (cases "sig = []")
    case True
    show ?thesis
      unfolding execute_def p2pkh_input_code[OF assms] using r True m assms(2)
      by (simp add: exec_op_def exec_switch_def is_disabled_def init_state_def push_def
          MAX_PUSH_def MAX_STACK_def STACK_FALSE_def)
  next
    case False
    then have m2: "Script_isMinimal sig (int (length sig)) flags"
      using assms(3) by (simp add: isMinimal_direct)
    show ?thesis
      unfolding execute_def p2pkh_input_code[OF assms] using r False m m2 assms(2) l
      by (simp add: exec_op_def init_state_def push_def MAX_PUSH_def MAX_STACK_def)
  qed
qed

lemma p2pkh_input_pushonly:
  assumes "2 \<le> length pubkey" "length pubkey \<le> 75"
    and "sig = [] \<or> (2 \<le> length sig \<and> length sig \<le> 75)"
  shows "isPushOnly (p2pkh_input sig pubkey)"
  unfolding isPushOnly_def p2pkh_input_code[OF assms] by simp


lemma fromPubkeyhash_fromRaw:
  assumes "length h = 20"
  shows "fromPubkeyhash h = Inr (Script_fromRaw ([0x76, 0xa9, 0x14] @ h @ [0x88, 0xac]))"
  using assms decode_push[of h "[0x88, 0xac]"]
  by (simp add: fromPubkeyhash_def Script_fromRaw_def)

lemma upt_5: "[0..<5] = [0, 1, 2, 3, 4]"
  by (simp add: upt_rec)

lemma p2pkh_removeData:
  assumes "fromPubkeyhash h = Inr out"
  shows "\<exists>sub. removeData out sig = Inr sub"
proof -
  have l: "length h = 20" using assms by (simp add: fromPubkeyhash_def split: if_splits)
  have c: "code out = [Opcode OP_DUP None, Opcode OP_HASH160 None, Opcode 0x14 (Some h),
                       Opcode OP_EQUALVERIFY None, Opcode OP_CHECKSIG None]"
    using assms l by (auto simp add: fromPubkeyhash_def)
  have m: "Script_isMinimal h 0x14 VERIFY_MINIMALDATA"
    using l by (simp add: Script_isMinimal_def)
  show ?thesis
  proof (cases "h = sig")
    case True
    have i: "removeData_index sig 0 (code out) [] = [2]"
      unfolding c using m True by simp
    show ?thesis
      unfolding removeData_def i Let_def c upt_5
      by (simp add: encode_op_def writeU8_def)
  next
    case False
    have i: "removeData_index sig 0 (code out) [] = []"
      unfolding c using m False by simp
    show ?thesis unfolding removeData_def i Let_def by simp
  qed
qed

lemma p2pkh_checksig_subscript:
  assumes "fromPubkeyhash h = Inr out"
  shows "\<exists>sub. checksig_subscript out 0 sig 0 = Inr sub"
proof -
  have l: "length h = 20" using assms by (simp add: fromPubkeyhash_def split: if_splits)
  have "Script_fromRaw (raw out) = out"
    using assms fromPubkeyhash_fromRaw[OF l] by (auto simp add: Script_fromRaw_def)
  then show ?thesis
    using p2pkh_removeData[OF assms, of sig] by (simp add: checksig_subscript_def getSubscript_def)
qed

lemma op_checksig_fails:
  assumes sub: "checksig_subscript this (lastSep st) sig 0 = Inr sub"
    and vs: "validateSignature E sig flags = Inr True"
    and vk: "validateKey key flags 0 = Inr True"
    and f: "sig = [] \<or> \<not> Script_checksig E
               (signatureHash t index sub (unat (sig ! (length sig - 1))) 0) sig key flags"
    and s: "stack st = [sig, key]"
  shows "op_checksig E this flags (Some t) index 0 OP_CHECKSIG st
           = (if sig \<noteq> [] \<and> has_flag flags VERIFY_NULLFAIL then SErr ''NULLFAIL''
              else Inr (st\<lparr>stack := [[]]\<rparr>))"
proof -
  show ?thesis
    unfolding op_checksig_def using f sub vs vk
    by (auto simp add: s top_def pop_def push_def STACK_FALSE_def Let_def)
qed

lemma p2pkh_output_execute:
  assumes out: "fromPubkeyhash (hash160 E pubkey) = Inr out"
    and vs: "validateSignature E sig flags = Inr True"
    and vk: "validateKey pubkey flags 0 = Inr True"
    and f: "sig = [] \<or> p2pkh_checksig E t sig pubkey flags = Inr False"
  shows "execute E out [sig, pubkey] flags (Some t) 0 0
           = (if sig \<noteq> [] \<and> has_flag flags VERIFY_NULLFAIL then SErr ''NULLFAIL''
              else Inr [[]])"
proof -
  let ?h = "hash160 E pubkey"
  have l: "length ?h = 20" using out by (simp add: fromPubkeyhash_def split: if_splits)
  have c: "code out = [Opcode OP_DUP None, Opcode OP_HASH160 None, Opcode 0x14 (Some ?h),
                       Opcode OP_EQUALVERIFY None, Opcode OP_CHECKSIG None]"
    and r: "length (raw out) = 25"
    using out l by (auto simp add: fromPubkeyhash_def)
  have m: "Script_isMinimal ?h 0x14 flags" using l by (simp add: Script_isMinimal_def)
  obtain sub where sub: "checksig_subscript out 0 sig 0 = Inr sub"
    using p2pkh_checksig_subscript[OF out] by blast
  have f': "sig = [] \<or> \<not> Script_checksig E
               (signatureHash t 0 sub (unat (sig ! (length sig - 1))) 0) sig pubkey flags"
    using f sub out by (auto simp add: p2pkh_checksig_def)
  define st4 where "st4 = \<lparr>stack = [sig, pubkey], alt = [], state = [], negate = 0,
                           opCount = 4, lastSep = 0\<rparr>"
  have pre: "exec_loop E out flags (Some t) 0 0 0
               [Opcode OP_DUP None, Opcode OP_HASH160 None, Opcode 0x14 (Some ?h),
                Opcode OP_EQUALVERIFY None] (init_state [sig, pubkey])
             = Inr \<lparr>stack = [sig, pubkey], alt = [], state = [], negate = 0,
                    opCount = 3, lastSep = 0\<rparr>"
    using m l
    by (simp add: exec_op_def exec_switch_def is_disabled_def init_state_def push_def pop_def
        top_def MAX_OPS_def MAX_PUSH_def STACK_TRUE_def Let_def)
  have cs: "op_checksig E out flags (Some t) 0 0 OP_CHECKSIG st4
           = (if sig \<noteq> [] \<and> has_flag flags VERIFY_NULLFAIL then SErr ''NULLFAIL''
              else Inr (st4\<lparr>stack := [[]]\<rparr>))"
    by (rule op_checksig_fails[OF _ vs vk f']) (simp_all add: st4_def sub)
  have last: "\<And>ip. exec_op E out flags (Some t) 0 0 ip (Opcode OP_CHECKSIG None)
                 \<lparr>stack = [sig, pubkey], alt = [], state = [], negate = 0,
                  opCount = 3, lastSep = 0\<rparr>
           = (if sig \<noteq> [] \<and> has_flag flags VERIFY_NULLFAIL then SErr ''NULLFAIL''
              else Inr (st4\<lparr>stack := [[]]\<rparr>))"
    using cs
    by (simp add: exec_op_def exec_switch_def is_disabled_def MAX_OPS_def Let_def st4_def)
  have whole: "exec_loop E out flags (Some t) 0 0 0 (code out) (init_state [sig, pubkey])
           = (if sig \<noteq> [] \<and> has_flag flags VERIFY_NULLFAIL then SErr ''NULLFAIL''
              else Inr (st4\<lparr>stack := [[]]\<rparr>))"
  proof -
    have "exec_loop E out flags (Some t) 0 0 0
            ([Opcode OP_DUP None, Opcode OP_HASH160 None, Opcode 0x14 (Some ?h),
              Opcode OP_EQUALVERIFY None] @ [Opcode OP_CHECKSIG None]) (init_state [sig, pubkey])
           = (if sig \<noteq> [] \<and> has_flag flags VERIFY_NULLFAIL then SErr ''NULLFAIL''
              else Inr (st4\<lparr>stack := [[]]\<rparr>))"
      unfolding exec_loop_append pre by (simp add: last)
    then show ?thesis unfolding c by simp
  qed
  show ?thesis
    unfolding execute_def whole using r
    by (simp add: MAX_SCRIPT_SIZE_def MAX_STACK_def st4_def)
qed

lemma p2pkh_verify_failing:
  assumes pk: "2 \<le> length pubkey" "length pubkey \<le> 75"
    and h: "length (hash160 E pubkey) = 20"
    and vk: "validateKey pubkey flags 0 = Inr True"
    and sg: "sig = [] \<or> (2 \<le> length sig \<and> length sig \<le> 75
               \<and> validateSignature E sig flags = Inr True
               \<and> p2pkh_checksig E t sig pubkey flags = Inr False)"
  shows "p2pkh_verify E vp sig pubkey (Some t) flags
           = (if sig \<noteq> [] \<and> has_flag flags VERIFY_NULLFAIL then SErr ''NULLFAIL''
              else SErr ''EVAL_FALSE'')"
proof -
  obtain out where out: "fromPubkeyhash (hash160 E pubkey) = Inr out"
    using h by (simp add: fromPubkeyhash_def)
  have sz: "sig = [] \<or> (2 \<le> length sig \<and> length sig \<le> 75)" using sg by auto
  have vs: "validateSignature E sig flags = Inr True"
  proof (cases "sig = []")
    case True
    then show ?thesis by (simp add: validateSignature_def)
  next
    case False
    then show ?thesis using sg by simp
  qed
  have f: "sig = [] \<or> p2pkh_checksig E t sig pubkey flags = Inr False" using sg by auto
  have po: "isPushOnly (p2pkh_input sig pubkey)" using pk sz by (rule p2pkh_input_pushonly)
  have e1: "execute E (p2pkh_input sig pubkey) [] flags (Some t) 0 0 = Inr [sig, pubkey]"
    using pk sz by (rule p2pkh_input_execute)
  have e2: "execute E out [sig, pubkey] flags (Some t) 0 0
           = (if sig \<noteq> [] \<and> has_flag flags VERIFY_NULLFAIL then SErr ''NULLFAIL''
              else Inr [[]])"
    using out vs vk f by (rule p2pkh_output_execute)
  show ?thesis
    unfolding p2pkh_verify_def out Script_verify_def using po
    by (simp add: e1 e2 top_def)
qed


lemma toy_checksig_short:
  assumes "length sig < 33"
  shows "\<not> Script_checksig toy_env (signatureHash toy_tx i sub ht v) sig key flags"
proof
  assume "Script_checksig toy_env (signatureHash toy_tx i sub ht v) sig key flags"
  then have "butlast sig = toy_digest 32 (raw sub) @ key"
    by (simp add: Script_checksig_def toy_env_def toy_tx_def)
  then have "length (butlast sig) = length (toy_digest 32 (raw sub) @ key)" by simp
  then show False using assms by (simp add: toy_digest_def)
qed

lemma toy_p2pkh_checksig:
  assumes "length sig < 33"
  shows "p2pkh_checksig toy_env toy_tx sig pubkey flags = Inr False"
proof -
  have "length (hash160 toy_env pubkey) = 20" by (simp add: toy_env_def toy_digest_def)
  then obtain out where out: "fromPubkeyhash (hash160 toy_env pubkey) = Inr out"
    by (simp add: fromPubkeyhash_def)
  obtain sub where sub: "checksig_subscript out 0 sig 0 = Inr sub"
    using p2pkh_checksig_subscript[OF out] by blast
  show ?thesis
    using toy_checksig_short[OF assms] by (simp add: p2pkh_checksig_def out sub)
qed

text \<open>
  C2 (as amended). In the pay-to-pubkeyhash scenario, for a public key that passes the
  key checks and whose \<open>hash160\<close> has 20 bytes, and a signature that is empty or that
  passes the encoding checks and fails the signature check: \<open>Script.verify\<close> throws
  \<open>NULLFAIL\<close> when the signature is not empty and \<open>VERIFY_NULLFAIL\<close> is set, and
  \<open>EVAL_FALSE\<close> otherwise, that is for the empty signature under every flag set and for
  a failing signature when \<open>VERIFY_NULLFAIL\<close> is unset.
\<close>

theorem C2_p2pkh_nullfail:
  assumes "2 \<le> length pubkey" and "length pubkey \<le> 75"
    and "length (hash160 E pubkey) = 20"
    and "validateKey pubkey flags 0 = Inr True"
    and "sig = [] \<or> (2 \<le> length sig \<and> length sig \<le> 75
               \<and> validateSignature E sig flags = Inr True
               \<and> p2pkh_checksig E t sig pubkey flags = Inr False)"
  shows "p2pkh_verify E vp sig pubkey (Some t) flags
           = (if sig \<noteq> [] \<and> has_flag flags VERIFY_NULLFAIL then SErr ''NULLFAIL''
              else SErr ''EVAL_FALSE'')"
  using assms by (rule p2pkh_verify_failing)

theorem C2_p2pkh_nullfail_witness:
  "2 \<le> length ([2, 7, 7, 7, 7, 7, 7, 7, 7, 7, 7, 7, 7, 7, 7, 7, 7, 7, 7, 7, 7, 7, 7, 7, 7, 7, 7, 7, 7,
      7, 7, 7, 7] :: byte list) \<and> length ([2, 7, 7, 7, 7, 7, 7, 7, 7, 7, 7, 7, 7, 7, 7, 7, 7, 7, 7, 7, 7, 7, 7, 7, 7, 7, 7, 7, 7,
      7, 7, 7, 7] :: byte list) \<le> 75
   \<and> length (hash160 toy_env [2, 7, 7, 7, 7, 7, 7, 7, 7, 7, 7, 7, 7, 7, 7, 7, 7, 7, 7, 7, 7, 7, 7, 7, 7, 7, 7, 7, 7,
      7, 7, 7, 7]) = 20
   \<and> validateKey [2, 7, 7, 7, 7, 7, 7, 7, 7, 7, 7, 7, 7, 7, 7, 7, 7, 7, 7, 7, 7, 7, 7, 7, 7, 7, 7, 7, 7,
      7, 7, 7, 7] VERIFY_NULLFAIL 0 = Inr True
   \<and> 2 \<le> length ([0x30, 6, 2, 1, 1, 2, 1, 1, 1] :: byte list) \<and> length ([0x30, 6, 2, 1, 1, 2, 1, 1, 1] :: byte list) \<le> 75
   \<and> validateSignature toy_env [0x30, 6, 2, 1, 1, 2, 1, 1, 1] VERIFY_NULLFAIL = Inr True
   \<and> p2pkh_checksig toy_env toy_tx [0x30, 6, 2, 1, 1, 2, 1, 1, 1] [2, 7, 7, 7, 7, 7, 7, 7, 7, 7, 7, 7, 7, 7, 7, 7, 7, 7, 7, 7, 7, 7, 7, 7, 7, 7, 7, 7, 7,
      7, 7, 7, 7] VERIFY_NULLFAIL = Inr False
   \<and> has_flag VERIFY_NULLFAIL VERIFY_NULLFAIL
   \<and> p2pkh_verify toy_env toy_verifyProgram [0x30, 6, 2, 1, 1, 2, 1, 1, 1] [2, 7, 7, 7, 7, 7, 7, 7, 7, 7, 7, 7, 7, 7, 7, 7, 7, 7, 7, 7, 7, 7, 7, 7, 7, 7, 7, 7, 7,
      7, 7, 7, 7] (Some toy_tx) VERIFY_NULLFAIL
       = SErr ''NULLFAIL''
   \<and> p2pkh_verify toy_env toy_verifyProgram [] [2, 7, 7, 7, 7, 7, 7, 7, 7, 7, 7, 7, 7, 7, 7, 7, 7, 7, 7, 7, 7, 7, 7, 7, 7, 7, 7, 7, 7,
      7, 7, 7, 7] (Some toy_tx) VERIFY_NULLFAIL
       = SErr ''EVAL_FALSE''"
proof -
  let ?pk = "[2, 7, 7, 7, 7, 7, 7, 7, 7, 7, 7, 7, 7, 7, 7, 7, 7, 7, 7, 7, 7, 7, 7, 7, 7, 7, 7, 7, 7,
      7, 7, 7, 7] :: byte list"
  let ?sig = "[0x30, 6, 2, 1, 1, 2, 1, 1, 1] :: byte list"
  have l: "2 \<le> length ?pk" "length ?pk \<le> 75" "2 \<le> length ?sig" "length ?sig \<le> 75"
    by simp_all
  have h: "length (hash160 toy_env ?pk) = 20" by (simp add: toy_env_def toy_digest_def)
  have f: "has_flag VERIFY_NULLFAIL VERIFY_NULLFAIL"
    "\<not> has_flag VERIFY_NULLFAIL VERIFY_STRICTENC" "\<not> has_flag VERIFY_NULLFAIL VERIFY_DERSIG"
    "\<not> has_flag VERIFY_NULLFAIL VERIFY_LOW_S"
    by (simp_all add: flag_simps)
  have vk: "validateKey ?pk VERIFY_NULLFAIL 0 = Inr True"
    using f by (simp add: validateKey_def)
  have vs: "validateSignature toy_env ?sig VERIFY_NULLFAIL = Inr True"
    using f by (simp add: validateSignature_def)
  have cs: "p2pkh_checksig toy_env toy_tx ?sig ?pk VERIFY_NULLFAIL = Inr False"
    by (rule toy_p2pkh_checksig) simp
  have r1: "p2pkh_verify toy_env toy_verifyProgram ?sig ?pk (Some toy_tx) VERIFY_NULLFAIL
       = SErr ''NULLFAIL''"
    using C2_p2pkh_nullfail[of ?pk toy_env VERIFY_NULLFAIL ?sig toy_tx toy_verifyProgram]
      l h vk vs cs f(1) by simp
  have r2: "p2pkh_verify toy_env toy_verifyProgram [] ?pk (Some toy_tx) VERIFY_NULLFAIL
       = SErr ''EVAL_FALSE''"
    using C2_p2pkh_nullfail[of ?pk toy_env VERIFY_NULLFAIL "[]" toy_tx toy_verifyProgram]
      l h vk by simp
  show ?thesis using l h vk vs cs f(1) r1 r2 by simp
qed

text \<open>
  The claim as written has \<open>NULLFAIL\<close> thrown for a failing signature that is not empty
  when \<open>VERIFY_NULLFAIL\<close> is unset. With no flag set, a 9-byte signature that fails the
  check makes \<open>Script.verify\<close> throw \<open>EVAL_FALSE\<close>.
\<close>

theorem C2_p2pkh_nullfail_counterexample:
  "\<not> has_flag 0 VERIFY_NULLFAIL
   \<and> ([0x30, 6, 2, 1, 1, 2, 1, 1, 1] :: byte list) \<noteq> []
   \<and> validateKey [2, 7, 7, 7, 7, 7, 7, 7, 7, 7, 7, 7, 7, 7, 7, 7, 7, 7, 7, 7, 7, 7, 7, 7, 7, 7, 7, 7, 7,
      7, 7, 7, 7] 0 0 = Inr True
   \<and> validateSignature toy_env [0x30, 6, 2, 1, 1, 2, 1, 1, 1] 0 = Inr True
   \<and> p2pkh_checksig toy_env toy_tx [0x30, 6, 2, 1, 1, 2, 1, 1, 1] [2, 7, 7, 7, 7, 7, 7, 7, 7, 7, 7, 7, 7, 7, 7, 7, 7, 7, 7, 7, 7, 7, 7, 7, 7, 7, 7, 7, 7,
      7, 7, 7, 7] 0 = Inr False
   \<and> p2pkh_verify toy_env toy_verifyProgram [0x30, 6, 2, 1, 1, 2, 1, 1, 1] [2, 7, 7, 7, 7, 7, 7, 7, 7, 7, 7, 7, 7, 7, 7, 7, 7, 7, 7, 7, 7, 7, 7, 7, 7, 7, 7, 7, 7,
      7, 7, 7, 7] (Some toy_tx) 0 = SErr ''EVAL_FALSE''"
proof -
  let ?pk = "[2, 7, 7, 7, 7, 7, 7, 7, 7, 7, 7, 7, 7, 7, 7, 7, 7, 7, 7, 7, 7, 7, 7, 7, 7, 7, 7, 7, 7,
      7, 7, 7, 7] :: byte list"
  let ?sig = "[0x30, 6, 2, 1, 1, 2, 1, 1, 1] :: byte list"
  have l: "2 \<le> length ?pk" "length ?pk \<le> 75" "2 \<le> length ?sig" "length ?sig \<le> 75"
    by simp_all
  have h: "length (hash160 toy_env ?pk) = 20" by (simp add: toy_env_def toy_digest_def)
  have f: "\<And>g. \<not> has_flag 0 g" by (simp add: has_flag_def)
  have vk: "validateKey ?pk 0 0 = Inr True" by (simp add: validateKey_def f)
  have vs: "validateSignature toy_env ?sig 0 = Inr True" by (simp add: validateSignature_def f)
  have cs: "p2pkh_checksig toy_env toy_tx ?sig ?pk 0 = Inr False"
    by (rule toy_p2pkh_checksig) simp
  have r: "p2pkh_verify toy_env toy_verifyProgram ?sig ?pk (Some toy_tx) 0
       = SErr ''EVAL_FALSE''"
    using p2pkh_verify_failing[of ?pk toy_env 0 ?sig toy_tx toy_verifyProgram] l h vk vs cs f
    by simp
  show ?thesis using f vk vs cs r by simp
qed


lemma fromRaw_loop_None_prefix:
  "fromRaw_loop data fstart index off i outs = Inr (outs', x) \<Longrightarrow> index = None \<Longrightarrow>
     x = None \<and> (\<exists>more. outs' = outs @ more)"
proof (induction data fstart index off i outs rule: fromRaw_loop.induct)
  case (1 data fstart index off i outs)
  note r = "1.prems"(1)[unfolded fromRaw_loop.simps[of data fstart index off i outs]]
  show ?case
  proof (cases "p_left data off = 0")
    case True
    then show ?thesis using r by simp
  next
    case nz: False
    show ?thesis
    proof (cases "spent_bit data fstart i")
      case True
      then have "fromRaw_loop data fstart index off (i + 1) (outs @ [Null]) = Inr (outs', x)"
        using r nz "1.prems"(2) by simp
      from "1.IH"(1)[OF nz True "1.prems"(2) this "1.prems"(2)] show ?thesis by auto
    next
      case False
      then obtain off' where s: "skip_coin data off = Inr off'"
        and l: "fromRaw_loop data fstart index off' (i + 1)
                  (outs @ [CompressedCoin off (off' - off) data]) = Inr (outs', x)"
        using r nz "1.prems"(2) by (auto split: sum.splits)
      from "1.IH"(3)[OF nz False s "1.prems"(2) l "1.prems"(2)] show ?thesis by auto
    qed
  qed
qed

fun not_decoded :: "'s coin_entry \<Rightarrow> bool" where
  "not_decoded (Decoded c) = False"
| "not_decoded e = True"

lemma fromRaw_loop_None_entries:
  "fromRaw_loop data fstart index off i outs = Inr (outs', x) \<Longrightarrow> index = None \<Longrightarrow>
     list_all not_decoded outs \<Longrightarrow> list_all not_decoded outs'"
proof (induction data fstart index off i outs rule: fromRaw_loop.induct)
  case (1 data fstart index off i outs)
  note r = "1.prems"(1)[unfolded fromRaw_loop.simps[of data fstart index off i outs]]
  show ?case
  proof (cases "p_left data off = 0")
    case True
    then show ?thesis using r "1.prems"(3) by simp
  next
    case nz: False
    show ?thesis
    proof (cases "spent_bit data fstart i")
      case True
      then have l: "fromRaw_loop data fstart index off (i + 1) (outs @ [Null]) = Inr (outs', x)"
        using r nz "1.prems"(2) by simp
      have a: "list_all not_decoded (outs @ [Null])"
        using "1.prems"(3) by simp
      from "1.IH"(1)[OF nz True "1.prems"(2) l "1.prems"(2) a] show ?thesis .
    next
      case False
      then obtain off' where s: "skip_coin data off = Inr off'"
        and l: "fromRaw_loop data fstart index off' (i + 1)
                  (outs @ [CompressedCoin off (off' - off) data]) = Inr (outs', x)"
        using r nz "1.prems"(2) by (auto split: sum.splits)
      have a: "list_all not_decoded (outs @ [CompressedCoin off (off' - off) data])"
        using "1.prems"(3) by simp
      from "1.IH"(3)[OF nz False s "1.prems"(2) l "1.prems"(2) a] show ?thesis .
    qed
  qed
qed

definition found_at :: "'s coin_entry list \<Rightarrow> nat \<Rightarrow> ('s coin_entry \<times> nat) option" where
  "found_at outs k =
     (if k < length outs
      then (case outs ! k of CompressedCoin a b c \<Rightarrow> Some (outs ! k, k) | _ \<Rightarrow> None)
      else None)"

lemma fromRaw_loop_index:
  "fromRaw_loop data fstart index off i outs = Inr (outs', x) \<Longrightarrow> index = None \<Longrightarrow>
     length outs = i \<Longrightarrow> i \<le> k \<Longrightarrow>
     fromRaw_loop data fstart (Some k) off i acc = Inr (acc, found_at outs' k)"
proof (induction data fstart index off i outs rule: fromRaw_loop.induct)
  case (1 data fstart index off i outs)
  note r = "1.prems"(1)[unfolded fromRaw_loop.simps[of data fstart index off i outs]]
  note n = "1.prems"(2)
  note len = "1.prems"(3)
  note ik = "1.prems"(4)
  show ?case
  proof (cases "p_left data off = 0")
    case True
    then have "outs' = outs" using r by simp
    then have "found_at outs' k = None" using len ik by (simp add: found_at_def)
    then show ?thesis using True by (simp add: fromRaw_loop.simps[of data fstart "Some k"])
  next
    case nz: False
    show ?thesis
    proof (cases "spent_bit data fstart i")
      case True
      then have l: "fromRaw_loop data fstart index off (i + 1) (outs @ [Null]) = Inr (outs', x)"
        using r nz n by simp
      show ?thesis
      proof (cases "i = k")
        case ieq: True
        obtain more where "outs' = (outs @ [Null]) @ more"
          using fromRaw_loop_None_prefix[OF l n] by blast
        then have "outs' ! k = Null" "k < length outs'" using len ieq by (simp_all add: nth_append)
        then have "found_at outs' k = None" by (simp add: found_at_def)
        then show ?thesis using nz True ieq
          by (simp add: fromRaw_loop.simps[of data fstart "Some k" off k])
      next
        case False
        then have lt: "i + 1 \<le> k" using ik by simp
        have len': "length (outs @ [Null]) = i + 1" using len by simp
        from "1.IH"(1)[OF nz True n l n len' lt]
        show ?thesis using nz True False
          by (simp add: fromRaw_loop.simps[of data fstart "Some k" off i])
      qed
    next
      case ns: False
      then obtain off' where s: "skip_coin data off = Inr off'"
        and l: "fromRaw_loop data fstart index off' (i + 1)
                  (outs @ [CompressedCoin off (off' - off) data]) = Inr (outs', x)"
        using r nz n by (auto split: sum.splits)
      show ?thesis
      proof (cases "i = k")
        case ieq: True
        obtain more where "outs' = (outs @ [CompressedCoin off (off' - off) data]) @ more"
          using fromRaw_loop_None_prefix[OF l n] by blast
        then have "outs' ! k = CompressedCoin off (off' - off) data" "k < length outs'"
          using len ieq by (simp_all add: nth_append)
        then have "found_at outs' k = Some (CompressedCoin off (off' - off) data, k)"
          by (simp add: found_at_def)
        then show ?thesis using nz ns ieq s
          by (simp add: fromRaw_loop.simps[of data fstart "Some k" off k])
      next
        case False
        then have lt: "i + 1 \<le> k" using ik by simp
        have len': "length (outs @ [CompressedCoin off (off' - off) data]) = i + 1"
          using len by simp
        from "1.IH"(3)[OF nz ns s n l n len' lt]
        show ?thesis using nz ns False s
          by (simp add: fromRaw_loop.simps[of data fstart "Some k" off i])
      qed
    qed
  qed
qed

lemma toCoin_outputs:
  "toCoin dec e (cs\<lparr>coins_outputs := os\<rparr>) i = toCoin dec e cs i"
  by (auto simp add: toCoin_def split: coin_entry.splits sum.splits prod.splits)

lemma parseCoin_eq_get:
  assumes "Coins_fromRaw data hash = Inr cs"
  shows "parseCoin dec data hash i = Coins_get dec cs i"
proof -
  obtain version height coinbase fstart off where
    h: "fromRaw_header data = Inr (version, height, coinbase, fstart, off)"
    using assms by (auto simp add: Coins_fromRaw_def split: sum.splits)
  obtain outs x where l: "fromRaw_loop data fstart None off 0 ([] :: 'a coin_entry list) = Inr (outs, x)"
    and cs: "cs = \<lparr>coins_version = version, coins_hash = hash, coins_height = height,
                   coins_coinbase = coinbase, coins_outputs = outs\<rparr>"
    using assms h by (auto simp add: Coins_fromRaw_def split: sum.splits)
  have nd: "list_all not_decoded outs"
    using fromRaw_loop_None_entries[OF l] by simp
  have idx: "fromRaw_loop data fstart (Some i) off 0 ([] :: 'a coin_entry list)
               = Inr ([], found_at outs i)"
    using fromRaw_loop_index[OF l, of i "[]"] by simp
  show ?thesis
  proof (cases "i < length outs")
    case False
    then show ?thesis
      by (simp add: parseCoin_def h idx found_at_def Coins_get_def cs)
  next
    case True
    then have "not_decoded (outs ! i)" using nd by (simp add: list_all_length)
    then show ?thesis
      using True toCoin_outputs[where dec = dec and e = "outs ! i" and cs = cs and os = "[]" and i = i]
      by (auto simp add: parseCoin_def h idx found_at_def Coins_get_def cs
          split: coin_entry.splits sum.splits)
  qed
qed


text \<open>
  C8. For a buffer that \<open>Coins.fromRaw\<close> decodes, \<open>Coins.parseCoin(data, hash, i)\<close> returns
  what \<open>Coins.fromRaw(data, hash).get(i)\<close> returns, for every index and every script
  decompressor: the coin of output \<open>i\<close> when it is present and unspent (or the error that
  decoding this coin throws), and nothing when output \<open>i\<close> is spent or past the last
  output. The call with an index leaves \<open>outputs\<close> empty.
\<close>

theorem C8_parseCoin_refines_fromRaw:
  assumes "Coins_fromRaw data hash = Inr cs"
  shows "parseCoin dec data hash i = Coins_get dec cs i
         \<and> (i \<ge> length (coins_outputs cs) \<or> coins_outputs cs ! i = Null
              \<longrightarrow> parseCoin dec data hash i = Inr None)"
  using parseCoin_eq_get[OF assms, of dec i] by (simp add: Coins_get_def)

lemma spent_bit_examples:
  "\<not> spent_bit [1, 0x0b, 0, 0, 0, 1, 0x40, 0, 2, 0x51, 0x52, 7, 0, 1, 0x53, 9] 6 0"
  "spent_bit [1, 0x0b, 0, 0, 0, 1, 0x40, 0, 2, 0x51, 0x52, 7, 0, 1, 0x53, 9] 6 (Suc 0)"
  "\<not> spent_bit [1, 0x0b, 0, 0, 0, 1, 0x40, 0, 2, 0x51, 0x52, 7, 0, 1, 0x53, 9] 6 (Suc (Suc 0))"
  by (simp_all add: spent_bit_def Let_def numeral_2_eq_2[symmetric])


theorem C8_parseCoin_refines_fromRaw_witness:
  "Coins_fromRaw [1, 0x0b, 0, 0, 0, 1, 0x40, 0, 2, 0x51, 0x52, 7, 0, 1, 0x53, 9] ''tx''
     = Inr \<lparr>coins_version = 1, coins_hash = ''tx'', coins_height = 5, coins_coinbase = True,
            coins_outputs = [CompressedCoin 7 5 [1, 0x0b, 0, 0, 0, 1, 0x40, 0, 2, 0x51, 0x52, 7, 0, 1, 0x53, 9], Null, CompressedCoin 12 4 [1, 0x0b, 0, 0, 0, 1, 0x40, 0, 2, 0x51, 0x52, 7, 0, 1, 0x53, 9]
                             :: byte list coin_entry]\<rparr>
   \<and> parseCoin toy_decompress [1, 0x0b, 0, 0, 0, 1, 0x40, 0, 2, 0x51, 0x52, 7, 0, 1, 0x53, 9] ''tx'' 2
     = Inr (Some \<lparr>coin_version = 1, coin_height = 5, coin_value = 9, coin_script = [0x53],
                  coin_coinbase = True, coin_hash = ''tx'', coin_index = 2\<rparr>)
   \<and> parseCoin toy_decompress [1, 0x0b, 0, 0, 0, 1, 0x40, 0, 2, 0x51, 0x52, 7, 0, 1, 0x53, 9] ''tx'' 1 = Inr None"
proof -
  let ?d = "[1, 0x0b, 0, 0, 0, 1, 0x40, 0, 2, 0x51, 0x52, 7, 0, 1, 0x53, 9] :: byte list"
  let ?cs = "\<lparr>coins_version = 1, coins_hash = ''tx'', coins_height = 5, coins_coinbase = True,
              coins_outputs = [CompressedCoin 7 5 ?d, Null, CompressedCoin 12 4 ?d
                               :: byte list coin_entry]\<rparr>"
  have h: "fromRaw_header ?d = Inr (1, 5, True, 6, 7)"
    by (simp add: fromRaw_header_def p_readVarint_def p_readU32_def p_seek_def Let_def)
  have s0: "skip_coin ?d 7 = Inr 12"
    by (simp add: skip_coin_def skip_script_def p_readU8_def p_readVarint_def p_seek_def Let_def)
  have s2: "skip_coin ?d 12 = Inr 16"
    by (simp add: skip_coin_def skip_script_def p_readU8_def p_readVarint_def p_seek_def Let_def)
  have l: "fromRaw_loop ?d 6 None 7 0 ([] :: byte list coin_entry list)
             = Inr ([CompressedCoin 7 5 ?d, Null, CompressedCoin 12 4 ?d], None)"
    apply (subst fromRaw_loop.simps, simp add: p_left_def spent_bit_examples s0)
    apply (subst fromRaw_loop.simps, simp add: p_left_def spent_bit_examples)
    apply (subst fromRaw_loop.simps, simp add: p_left_def spent_bit_examples s2)
    apply (subst fromRaw_loop.simps, simp add: p_left_def)
    done
  have fr: "Coins_fromRaw ?d ''tx'' = Inr ?cs"
    by (simp add: Coins_fromRaw_def h l)
  have g2: "Coins_get toy_decompress ?cs 2
     = Inr (Some \<lparr>coin_version = 1, coin_height = 5, coin_value = 9, coin_script = [0x53],
                  coin_coinbase = True, coin_hash = ''tx'', coin_index = 2\<rparr>)"
    by (simp add: Coins_get_def toCoin_def toy_decompress_def p_readU8_def p_readVarint_def
        p_seek_def Let_def)
  have g1: "Coins_get toy_decompress ?cs 1 = Inr None"
    by (simp add: Coins_get_def)
  show ?thesis
    using C8_parseCoin_refines_fromRaw[OF fr, of toy_decompress 2]
      C8_parseCoin_refines_fromRaw[OF fr, of toy_decompress 1] fr g2 g1
    by simp
qed

subsection \<open>The round trip of toRaw and fromRaw\<close>
























subsection \<open>The size of a coins object\<close>





subsection \<open>What the first loop of toRaw writes\<close>






subsection \<open>Reading back what toRaw wrote\<close>


















subsection \<open>The concrete script codec\<close>







end
